theory Spec2Isabelle
  imports Complex_Main
begin

section \<open>Values of the Python program\<close>

text \<open>
  A Python \<open>str\<close> is a sequence of Unicode code points; \<open>len\<close> and slicing count
  code points. A string is therefore a list of code points, and \<open>py\<close> turns an ASCII
  literal into one.
\<close>

type_synonym str = "nat list"

definition py :: "string \<Rightarrow> str" where
  "py cs = map of_char cs"

definition nl :: str where
  "nl = [10]"

text \<open>\<open>str(n)\<close> of a non-negative integer, as an f-string renders it.\<close>

fun str_of_nat :: "nat \<Rightarrow> str" where
  "str_of_nat n = (if n < 10 then [48 + n] else str_of_nat (n div 10) @ [48 + n mod 10])"

declare str_of_nat.simps [simp del]

text \<open>\<open>sep.join(xs)\<close>.\<close>

fun join :: "str \<Rightarrow> str list \<Rightarrow> str" where
  "join sep [] = []"
| "join sep [x] = x"
| "join sep (x # y # ys) = x @ sep @ join sep (y # ys)"

text \<open>\<open>s[i:j]\<close> for \<open>0 \<le> i \<le> j\<close>: the slice is cut at the end of the string.\<close>

definition slice :: "'a list \<Rightarrow> nat \<Rightarrow> nat \<Rightarrow> 'a list" where
  "slice s i j = take (j - i) (drop i s)"

text \<open>\<open>range(i, stop, step)\<close> as a list; the program only calls it with step 4000.\<close>

function range_step :: "nat \<Rightarrow> nat \<Rightarrow> nat \<Rightarrow> nat list" where
  "range_step i stop step =
     (if step = 0 \<or> stop \<le> i then [] else i # range_step (i + step) stop step)"
  by pat_completeness auto
termination
  by (relation "measure (\<lambda>(i, stop, step). stop - i)") auto

declare range_step.simps [simp del]

text \<open>
  \<open>s.lower()\<close> restricted to what the suffix tests of the program can see: the ASCII
  capitals are mapped to their small letters, every other code point is kept.
\<close>

definition lower_cp :: "nat \<Rightarrow> nat" where
  "lower_cp c = (if 65 \<le> c \<and> c \<le> 90 then c + 32 else c)"

definition lower :: "str \<Rightarrow> str" where
  "lower s = map lower_cp s"

definition endswith :: "str \<Rightarrow> str \<Rightarrow> bool" where
  "endswith s e = (length e \<le> length s \<and> drop (length s - length e) s = e)"

text \<open>\<open>s.endswith((e1, e2, ...))\<close> with a tuple of suffixes.\<close>

definition endswith_any :: "str \<Rightarrow> str list \<Rightarrow> bool" where
  "endswith_any s es = list_ex (endswith s) es"

text \<open>
  A call into a library (Dropbox, requests, Telegram) either raises an exception, of
  which the model keeps the text \<open>str(e)\<close>, or returns a value.
\<close>

datatype 'a outcome = Raises str | Returns 'a

text \<open>
  What \<open>response.json()\<close> can return. A finite float is the rational it denotes;
  \<open>PyNonFinite\<close> stands for \<open>nan\<close> and the infinities, which \<open>json\<close> accepts.
  A dict is an association list read with \<open>map_of\<close>.
\<close>

datatype pyval =
    PyNone
  | PyBool bool
  | PyInt int
  | PyFloat rat
  | PyNonFinite
  | PyStr str
  | PyList "pyval list"
  | PyDict "(str \<times> pyval) list"

text \<open>\<open>type(x).__name__\<close>.\<close>

fun type_name :: "pyval \<Rightarrow> str" where
  "type_name PyNone = py ''NoneType''"
| "type_name (PyBool b) = py ''bool''"
| "type_name (PyInt n) = py ''int''"
| "type_name (PyFloat x) = py ''float''"
| "type_name PyNonFinite = py ''float''"
| "type_name (PyStr s) = py ''str''"
| "type_name (PyList xs) = py ''list''"
| "type_name (PyDict kvs) = py ''dict''"

text \<open>
  \<open>d.get(k, default)\<close>: an \<open>AttributeError\<close> when \<open>d\<close> is not a dict, with the
  text Python gives it (39 is the single quote).
\<close>

definition dict_get :: "pyval \<Rightarrow> str \<Rightarrow> pyval \<Rightarrow> pyval outcome" where
  "dict_get d k dflt =
     (case d of
        PyDict kvs \<Rightarrow> Returns (case map_of kvs k of None \<Rightarrow> dflt | Some v \<Rightarrow> v)
      | _ \<Rightarrow>
          Raises ([39] @ type_name d @ [39] @ py '' object has no attribute '' @ [39] @ py ''get''
                    @ [39]))"

text \<open>Truth value of an object, as \<open>if not x\<close> tests it.\<close>

fun truthy :: "pyval \<Rightarrow> bool" where
  "truthy PyNone = False"
| "truthy (PyBool b) = b"
| "truthy (PyInt n) = (n \<noteq> 0)"
| "truthy (PyFloat x) = (x \<noteq> 0)"
| "truthy PyNonFinite = True"
| "truthy (PyStr s) = (s \<noteq> [])"
| "truthy (PyList xs) = (xs \<noteq> [])"
| "truthy (PyDict kvs) = (kvs \<noteq> [])"

text \<open>\<open>x == n\<close> for an integer literal \<open>n\<close>, and \<open>x == s\<close> for a string literal.\<close>

fun py_eq_int :: "pyval \<Rightarrow> int \<Rightarrow> bool" where
  "py_eq_int (PyInt m) n = (m = n)"
| "py_eq_int (PyFloat x) n = (x = of_int n)"
| "py_eq_int (PyBool b) n = ((if b then 1 else 0) = n)"
| "py_eq_int _ n = False"

fun py_eq_str :: "pyval \<Rightarrow> str \<Rightarrow> bool" where
  "py_eq_str (PyStr t) s = (t = s)"
| "py_eq_str _ s = False"

text \<open>
  An HTTP response of \<open>requests\<close>: the status code, the body (\<open>.text\<close>,
  here \<open>text_body\<close>), and what \<open>.json()\<close> does on that body (it raises when the
  body is not JSON).
\<close>

record response =
  status_code :: int
  text_body :: str
  json :: "pyval outcome"

text \<open>\<open>r.json().get(k)\<close>: either call may raise.\<close>

definition json_get :: "response \<Rightarrow> str \<Rightarrow> pyval outcome" where
  "json_get r k = (case json r of Raises e \<Rightarrow> Raises e | Returns j \<Rightarrow> dict_get j k PyNone)"

text \<open>An entry of the Dropbox folder.\<close>

record dbx_file =
  name :: str
  path_lower :: str

section \<open>The uploader and its environment\<close>

datatype level = INFO | WARNING | ERROR

text \<open>What the program does to the outside, in the order it does it.\<close>

datatype event =
    Authenticate
  | ListFolder
  | RandomChoice
  | GetTemporaryLink str
  | HttpCreate str str "str option"
  | HttpPoll
  | HttpPublish
  | FilesDelete str
  | Sleep nat
  | Logged level str
  | TelegramSend str

text \<open>
  The fields of \<open>DropboxToThreadsUploader\<close> that change or are read by the claims,
  together with the trace of events.
\<close>

record state =
  account_name :: str
  telegram_bot :: bool
  log_buffer :: "str list"
  trace :: "event list"

text \<open>
  The environment of one account's run: the outcome of every library call, by call
  site (each is executed at most once per account) and, inside a loop, by iteration.
\<close>

record world =
  bot_configured :: bool
  now_str :: str
  duration_str :: str
  config_caption :: "str option outcome"
  auth_main :: "unit outcome"
  entries_main :: "dbx_file list outcome"
  choice_main :: nat
  auth_run :: "unit outcome"
  entries_run :: "dbx_file list outcome"
  choice_run :: nat
  temp_link :: "str option outcome"
  entries_post :: "dbx_file list outcome"
  create_res :: "response outcome"
  poll_res :: "nat \<Rightarrow> response outcome"
  publish_res :: "nat \<Rightarrow> response outcome"
  delete_res :: "unit outcome"
  tg_send :: "nat \<Rightarrow> unit outcome"

definition emit :: "event \<Rightarrow> state \<Rightarrow> state" where
  "emit e st = st\<lparr>trace := trace st @ [e]\<rparr>"

definition script_name :: "state \<Rightarrow> str" where
  "script_name st = account_name st @ py ''_threads_post.py''"

text \<open>
  \<open>send_message(msg, level)\<close> with \<open>immediate=False\<close>, the only way the program
  calls it: the message goes to the buffer and to the logger.
\<close>

definition send_message :: "str \<Rightarrow> level \<Rightarrow> state \<Rightarrow> state" where
  "send_message msg lvl st =
     (let full_msg = py ''['' @ account_name st @ py ''] ['' @ script_name st @ py '']'' @ nl @ msg
      in st\<lparr>log_buffer := log_buffer st @ [full_msg],
             trace := trace st @ [Logged lvl full_msg]\<rparr>)"

text \<open>
  The loop of \<open>send_log_summary\<close>: every chunk is sent in its own \<open>try\<close>, so an
  exception of one send is logged and the loop goes on.
\<close>

fun send_chunks :: "world \<Rightarrow> str \<Rightarrow> nat list \<Rightarrow> nat \<Rightarrow> state \<Rightarrow> state" where
  "send_chunks w summary [] k st = st"
| "send_chunks w summary (i # is) k st =
     (let st1 = emit (TelegramSend (slice summary i (i + 4000))) st;
          st2 = (case tg_send w k of
                   Raises e \<Rightarrow> emit (Logged ERROR (py ''Telegram send error: '' @ e)) st1
                 | Returns _ \<Rightarrow> st1)
      in send_chunks w summary is (Suc k) st2)"

definition send_log_summary :: "world \<Rightarrow> state \<Rightarrow> state" where
  "send_log_summary w st =
     (let st1 = (if telegram_bot st \<and> log_buffer st \<noteq> []
                 then (let summary = join nl (log_buffer st)
                       in send_chunks w summary (range_step 0 (length summary) 4000) 0 st)
                 else st)
      in st1\<lparr>log_buffer := []\<rparr>)"

definition authenticate_dropbox :: "unit outcome \<Rightarrow> state \<Rightarrow> unit outcome \<times> state" where
  "authenticate_dropbox r st = (r, emit Authenticate st)"

definition valid_exts :: "str list" where
  "valid_exts = [py ''.mp4'', py ''.mov'', py ''.jpg'', py ''.jpeg'', py ''.png'']"

definition eligible :: "dbx_file \<Rightarrow> bool" where
  "eligible f = endswith_any (lower (name f)) valid_exts"

text \<open>
  \<open>list_dropbox_files(dbx)\<close>: \<open>r\<close> is the outcome of \<open>files_list_folder\<close>, the
  entries of the folder.
\<close>

definition list_dropbox_files :: "dbx_file list outcome \<Rightarrow> state \<Rightarrow> dbx_file list outcome \<times> state" where
  "list_dropbox_files r st =
     (case r of
        Raises e \<Rightarrow> (Raises e, emit ListFolder st)
      | Returns files \<Rightarrow> (Returns (filter eligible files), emit ListFolder st))"

definition default_caption :: "state \<Rightarrow> str" where
  "default_caption st = [10024] @ py '' #'' @ account_name st @ py '' '' @ [10024]"

definition get_caption_from_config :: "world \<Rightarrow> state \<Rightarrow> str \<times> state" where
  "get_caption_from_config w st =
     (case config_caption w of
        Returns (Some c) \<Rightarrow> (c, st)
      | Returns None \<Rightarrow> (default_caption st, st)
      | Raises e \<Rightarrow>
          (default_caption st,
           emit (Logged WARNING (py ''Could not load caption from config: '' @ e)) st))"

section \<open>The Publisher: \<open>post_to_threads\<close>\<close>

text \<open>How a loop body leaves: on to what follows the loop, \<open>return\<close>, or an exception.\<close>

datatype 'a flow = Next | Ret 'a | Exc str

text \<open>
  Step 2, \<open>for _ in range(max_retries)\<close>: \<open>poll_loop w f i n\<close> runs the \<open>n\<close>
  remaining iterations, the next poll being the \<open>i\<close>-th. \<open>break\<close> and the end
  of the range both continue after the loop.
\<close>

fun poll_loop :: "world \<Rightarrow> dbx_file \<Rightarrow> nat \<Rightarrow> nat \<Rightarrow> state \<Rightarrow> bool flow \<times> state" where
  "poll_loop w f i 0 st = (Next, st)"
| "poll_loop w f i (Suc n) st =
     (let st1 = emit HttpPoll st in
      case poll_res w i of
        Raises e \<Rightarrow> (Exc e, st1)
      | Returns poll \<Rightarrow>
          if status_code poll \<noteq> 200
          then (Ret False,
                send_message ([10060] @ py '' Polling failed for '' @ name f @ py '': '' @ text_body poll)
                  ERROR st1)
          else
            (case json_get poll (py ''status'') of
               Raises e \<Rightarrow> (Exc e, st1)
             | Returns status \<Rightarrow>
                 if py_eq_str status (py ''FINISHED'') then (Next, emit (Sleep 3) st1)
                 else if py_eq_str status (py ''ERROR'')
                 then (Ret False,
                       send_message
                         ([10060] @ py '' Transcode failed for '' @ name f @ py '': '' @ text_body poll)
                         ERROR st1)
                 else poll_loop w f (Suc i) n (emit (Sleep 1) st1)))"

text \<open>
  The \<open>try\<close> block of the publish loop decides whether the failure is the retryable
  one; any exception inside it is swallowed and means it is not.
\<close>

definition retryable :: "response \<Rightarrow> bool" where
  "retryable pub =
     (case json pub of
        Raises e \<Rightarrow> False
      | Returns err_json \<Rightarrow>
          (case dict_get err_json (py ''error'') (PyDict []) of
             Raises e \<Rightarrow> False
           | Returns err \<Rightarrow>
               (case dict_get err (py ''error_subcode'') PyNone of
                  Raises e \<Rightarrow> False
                | Returns error_code \<Rightarrow> py_eq_int error_code 2207032)))"

text \<open>
  Step 3, \<open>for attempt in range(3)\<close>: \<open>publish_loop w f attempt n\<close> runs the
  \<open>n\<close> remaining iterations.
\<close>

fun publish_loop :: "world \<Rightarrow> dbx_file \<Rightarrow> nat \<Rightarrow> nat \<Rightarrow> state \<Rightarrow> bool flow \<times> state" where
  "publish_loop w f attempt 0 st = (Next, st)"
| "publish_loop w f attempt (Suc n) st =
     (let st1 = emit HttpPublish st in
      case publish_res w attempt of
        Raises e \<Rightarrow> (Exc e, st1)
      | Returns pub \<Rightarrow>
          if status_code pub = 200
          then (Ret True,
                send_message ([9989] @ py '' Successfully posted to Threads: '' @ name f) INFO st1)
          else if retryable pub
          then publish_loop w f (Suc attempt) n
                 (emit (Sleep 5)
                   (send_message
                      ([9888, 65039] @ py '' Threads backend not ready yet, retrying... (''
                         @ str_of_nat (attempt + 1) @ py ''/3)'')
                      WARNING st1))
          else (Ret False,
                send_message
                  ([10060] @ py '' Threads publish failed: '' @ name f @ nl @ text_body pub)
                  ERROR st1))"

text \<open>The publish step: the extra wait of the first account, the loop, and what follows it.\<close>

definition publish_step :: "world \<Rightarrow> dbx_file \<Rightarrow> state \<Rightarrow> bool outcome \<times> state" where
  "publish_step w f st =
     (let st1 = (if account_name st = py ''eclipsed.by.you''
                 then emit (Sleep 5)
                        (send_message
                           ([9203] @ py '' Extra wait before publishing for first account...'')
                           INFO st)
                 else st)
      in case publish_loop w f 0 3 st1 of
           (Ret b, st2) \<Rightarrow> (Returns b, st2)
         | (Exc e, st2) \<Rightarrow> (Raises e, st2)
         | (Next, st2) \<Rightarrow>
             (Returns False,
              send_message ([10060] @ py '' Threads publish failed after retries: '' @ name f)
                ERROR st2))"

text \<open>The branch \<open>if temp_link\<close>: container creation, polling, publish.\<close>

definition media_post :: "world \<Rightarrow> dbx_file \<Rightarrow> str \<Rightarrow> str \<Rightarrow> str \<Rightarrow> state \<Rightarrow> bool outcome \<times> state" where
  "media_post w f caption media_type link st =
     (let st1 = emit (HttpCreate media_type caption (Some link)) st in
      case create_res w of
        Raises e \<Rightarrow> (Raises e, st1)
      | Returns res \<Rightarrow>
          if status_code res \<noteq> 200
          then (Returns False,
                send_message
                  ([10060] @ py '' Threads media container creation failed: '' @ name f @ nl @ text_body res)
                  ERROR st1)
          else
            (case json_get res (py ''id'') of
               Raises e \<Rightarrow> (Raises e, st1)
             | Returns creation_id \<Rightarrow>
                 if \<not> truthy creation_id
                 then (Returns False,
                       send_message ([10060] @ py '' No creation_id returned for '' @ name f)
                         ERROR st1)
                 else
                   (case poll_loop w f 0 20 st1 of
                      (Ret b, st2) \<Rightarrow> (Returns b, st2)
                    | (Exc e, st2) \<Rightarrow> (Raises e, st2)
                    | (Next, st2) \<Rightarrow> publish_step w f st2)))"

text \<open>The branch without a link: one text post.\<close>

definition text_post :: "world \<Rightarrow> dbx_file \<Rightarrow> str \<Rightarrow> state \<Rightarrow> bool outcome \<times> state" where
  "text_post w f caption st =
     (let st1 = emit (HttpCreate (py ''TEXT_POST'') caption None) st in
      case create_res w of
        Raises e \<Rightarrow> (Raises e, st1)
      | Returns res \<Rightarrow>
          if status_code res = 200
          then (Returns True,
                send_message ([9989] @ py '' Successfully posted to Threads: '' @ name f) INFO st1)
          else (Returns False,
                send_message ([10060] @ py '' Threads post failed: '' @ name f @ nl @ text_body res)
                  ERROR st1))"

definition media_type_of :: "dbx_file \<Rightarrow> str" where
  "media_type_of f =
     (if endswith_any (lower (name f)) [py ''.mp4'', py ''.mov''] then py ''VIDEO'' else py ''IMAGE'')"

definition post_to_threads :: "world \<Rightarrow> dbx_file \<Rightarrow> str \<Rightarrow> state \<Rightarrow> bool outcome \<times> state" where
  "post_to_threads w f caption st =
     (let media_type = media_type_of f;
          st1 = emit (GetTemporaryLink (path_lower f)) st
      in case temp_link w of
           Raises e \<Rightarrow> (Raises e, st1)
         | Returns temp \<Rightarrow>
             (case list_dropbox_files (entries_post w) st1 of
                (Raises e, st2) \<Rightarrow> (Raises e, st2)
              | (Returns files, st2) \<Rightarrow>
                  (let st3 = send_message
                               ([128640] @ py '' Uploading to Threads: '' @ name f @ nl
                                  @ [128208] @ py '' Type: '' @ media_type @ nl
                                  @ [128230] @ py '' Remaining: '' @ str_of_nat (length files))
                               INFO st2
                   in case temp of
                        Some link \<Rightarrow>
                          if link \<noteq> [] then media_post w f caption media_type link st3
                          else text_post w f caption st3
                      | None \<Rightarrow> text_post w f caption st3)))"

section \<open>The run of one account\<close>

text \<open>\<open>random.choice(xs)\<close> on a non-empty list, the draw being \<open>k\<close>.\<close>

definition random_choice :: "nat \<Rightarrow> 'a list \<Rightarrow> 'a" where
  "random_choice k xs = xs ! (k mod length xs)"

text \<open>The inner \<open>try\<close> of \<open>run\<close> and \<open>run_with_file\<close>: delete, and log either way.\<close>

definition delete_file :: "world \<Rightarrow> dbx_file \<Rightarrow> state \<Rightarrow> state" where
  "delete_file w f st =
     (let st1 = emit (FilesDelete (path_lower f)) st in
      case delete_res w of
        Returns _ \<Rightarrow>
          send_message ([128465, 65039] @ py '' Deleted file after attempt: '' @ name f) INFO st1
      | Raises e \<Rightarrow>
          send_message ([9888, 65039] @ py '' Failed to delete file '' @ name f @ py '': '' @ e)
            WARNING st1)"

definition started :: "world \<Rightarrow> state \<Rightarrow> state" where
  "started w st = send_message ([128225] @ py '' Threads Run started at: '' @ now_str w) INFO st"

text \<open>The handler \<open>except Exception as e\<close> of the outer \<open>try\<close>.\<close>

definition crashed :: "str \<Rightarrow> state \<Rightarrow> state" where
  "crashed e st = send_message ([10060] @ py '' Script crashed: '' @ e) ERROR st"

text \<open>The \<open>finally\<close> block.\<close>

definition finish :: "world \<Rightarrow> state \<Rightarrow> state" where
  "finish w st =
     send_log_summary w
       (send_message ([127937] @ py '' Run complete in '' @ duration_str w @ py '' seconds'') INFO st)"

definition run :: "world \<Rightarrow> state \<Rightarrow> state" where
  "run w st =
     (let st1 = started w st;
          st_try =
            (case get_caption_from_config w st1 of
               (caption, st2) \<Rightarrow>
                 (case authenticate_dropbox (auth_run w) st2 of
                    (Raises e, st3) \<Rightarrow> crashed e st3
                  | (Returns _, st3) \<Rightarrow>
                      (case list_dropbox_files (entries_run w) st3 of
                         (Raises e, st4) \<Rightarrow> crashed e st4
                       | (Returns files, st4) \<Rightarrow>
                           if files = []
                           then send_message ([128237] @ py '' No files found in Dropbox folder.'')
                                  INFO st4
                           else
                             (let f = random_choice (choice_run w) files;
                                  st5 = emit RandomChoice st4
                              in case post_to_threads w f caption st5 of
                                   (Raises e, st6) \<Rightarrow> crashed e st6
                                 | (Returns success, st6) \<Rightarrow> delete_file w f st6))))
      in finish w st_try)"

text \<open>
  \<open>run_with_file(uploader, chosen_file)\<close> of the main block: the pair it returns is
  \<open>(success, chosen_file.name)\<close>, or \<open>(False, None)\<close> after a crash.
\<close>

definition run_with_file :: "world \<Rightarrow> dbx_file \<Rightarrow> state \<Rightarrow> (bool \<times> str option) \<times> state" where
  "run_with_file w chosen_file st =
     (let st1 = started w st;
          (res, st_try) =
            (case get_caption_from_config w st1 of
               (caption, st2) \<Rightarrow>
                 (case authenticate_dropbox (auth_run w) st2 of
                    (Raises e, st3) \<Rightarrow> ((False, None), crashed e st3)
                  | (Returns _, st3) \<Rightarrow>
                      (case post_to_threads w chosen_file caption st3 of
                         (Raises e, st4) \<Rightarrow> ((False, None), crashed e st4)
                       | (Returns success, st4) \<Rightarrow>
                           ((success, Some (name chosen_file)), delete_file w chosen_file st4))))
      in (res, finish w st_try))"

section \<open>The main block\<close>

text \<open>
  The summary line of one account. \<open>initial_count\<close> is \<open>None\<close> for \<open>'ERR'\<close>;
  \<open>elif posted_file_name\<close> tests that the name is neither \<open>None\<close> nor empty.
\<close>

definition summary_line :: "str \<Rightarrow> nat option \<Rightarrow> str option \<Rightarrow> bool \<Rightarrow> str" where
  "summary_line acct initial_count posted_file_name post_success =
     (let no_file = (\<lambda>n. acct @ py '': '' @ str_of_nat n @ py '' files, no file posted.'') in
      case initial_count of
        None \<Rightarrow> acct @ py '': Dropbox error, could not count files.''
      | Some n \<Rightarrow>
          (case posted_file_name of
             None \<Rightarrow> no_file n
           | Some nm \<Rightarrow>
               if nm \<noteq> []
               then acct @ py '': '' @ str_of_nat n @ py '' files, posted: '' @ nm @ py '', ''
                      @ (if post_success then [9989] @ py '' Success'' else [10060] @ py '' Failed'')
               else no_file n))"

text \<open>
  The body of \<open>for account in ACCOUNTS\<close>: the summary line of the account and the
  uploader as the body leaves it.
\<close>

definition process_account :: "str \<Rightarrow> world \<Rightarrow> str \<times> state" where
  "process_account acct w =
     (let st0 = \<lparr>account_name = acct, telegram_bot = bot_configured w,
                 log_buffer = [], trace = []\<rparr>;
          (initial_count, files, st1) =
            (case authenticate_dropbox (auth_main w) st0 of
               (Raises e, s) \<Rightarrow> (None, [], s)
             | (Returns _, s) \<Rightarrow>
                 (case list_dropbox_files (entries_main w) s of
                    (Raises e, s') \<Rightarrow> (None, [], s')
                  | (Returns fs, s') \<Rightarrow> (Some (length fs), fs, s')));
          (post_success, posted_file_name, st2) =
            (if files \<noteq> []
             then (let posted_file = random_choice (choice_main w) files in
                   case run_with_file w posted_file (emit RandomChoice st1) of
                     ((ok, nm), s) \<Rightarrow> (ok, nm, s))
             else (False, None, run w st1))
      in (summary_line acct initial_count posted_file_name post_success, st2))"

definition ACCOUNTS :: "str list" where
  "ACCOUNTS = [py ''eclipsed.by.you'', py ''inkwisp'', py ''ink_wisps'']"

text \<open>
  The loop of \<open>send_overall_summary\<close>: the whole loop is inside one \<open>try\<close>, so the
  first send that raises ends it.
\<close>

fun send_all :: "(nat \<Rightarrow> unit outcome) \<Rightarrow> str \<Rightarrow> nat list \<Rightarrow> nat \<Rightarrow> event list
    \<Rightarrow> unit outcome \<times> event list" where
  "send_all sends summary [] k tr = (Returns (), tr)"
| "send_all sends summary (i # is) k tr =
     (let tr1 = tr @ [TelegramSend (slice summary i (i + 4000))] in
      case sends k of
        Raises e \<Rightarrow> (Raises e, tr1)
      | Returns _ \<Rightarrow> send_all sends summary is (Suc k) tr1)"

text \<open>
  \<open>send_overall_summary\<close>: \<open>new_bot\<close> is the outcome of \<open>Bot(token=...)\<close>, \<open>sends k\<close>
  the outcome of the \<open>k\<close>-th send. The result is the trace of the call.
\<close>

definition overall_text :: "str list \<Rightarrow> str" where
  "overall_text summary_lines = py ''[Threads Multi-Account Summary]'' @ nl @ join nl summary_lines"

definition send_overall_summary :: "str list \<Rightarrow> unit outcome \<Rightarrow> (nat \<Rightarrow> unit outcome) \<Rightarrow> event list" where
  "send_overall_summary summary_lines new_bot sends =
     (let summary = overall_text summary_lines;
          tr0 = [Logged INFO summary];
          err = (\<lambda>e. Logged ERROR (py ''Telegram send error (overall summary): '' @ e))
      in case new_bot of
           Raises e \<Rightarrow> tr0 @ [err e]
         | Returns _ \<Rightarrow>
             (case send_all sends summary (range_step 0 (length summary) 4000) 0 tr0 of
                (Raises e, tr) \<Rightarrow> tr @ [err e]
              | (Returns _, tr) \<Rightarrow> tr))"

text \<open>
  The main block: every account in turn, each in its own environment, then the overall
  summary. The result is the accounts' summary lines and final uploaders, and the trace
  of the overall summary.
\<close>

definition main :: "(str \<Rightarrow> world) \<Rightarrow> unit outcome \<Rightarrow> (nat \<Rightarrow> unit outcome)
    \<Rightarrow> (str \<times> state) list \<times> event list" where
  "main env new_bot sends =
     (let results = map (\<lambda>acct. process_account acct (env acct)) ACCOUNTS
      in (results, send_overall_summary (map fst results) new_bot sends))"

section \<open>Events of a trace\<close>

definition polls :: "state \<Rightarrow> nat" where
  "polls st = count_list (trace st) HttpPoll"

definition publishes :: "state \<Rightarrow> nat" where
  "publishes st = count_list (trace st) HttpPublish"

fun is_delete :: "event \<Rightarrow> bool" where
  "is_delete (FilesDelete p) = True"
| "is_delete _ = False"

definition deletes :: "state \<Rightarrow> nat" where
  "deletes st = length (filter is_delete (trace st))"

fun is_create :: "event \<Rightarrow> bool" where
  "is_create (HttpCreate media_type caption url) = True"
| "is_create _ = False"

definition creates :: "state \<Rightarrow> nat" where
  "creates st = length (filter is_create (trace st))"

definition choices :: "state \<Rightarrow> nat" where
  "choices st = count_list (trace st) RandomChoice"

text \<open>The texts handed to the Telegram bot, in the order of the sends.\<close>

fun telegram_texts :: "event list \<Rightarrow> str list" where
  "telegram_texts [] = []"
| "telegram_texts (TelegramSend t # es) = t # telegram_texts es"
| "telegram_texts (e # es) = telegram_texts es"

section \<open>Notions of the specification\<close>

text \<open>
  The error subcode a response carries: the value of \<open>error_subcode\<close> in the
  \<open>error\<close> object of its JSON body, if the body is JSON, is an object, has an error
  object, and that object has the key.
\<close>

definition error_subcode :: "response \<Rightarrow> pyval option" where
  "error_subcode pub =
     (case json pub of
        Returns (PyDict kvs) \<Rightarrow>
          (case map_of kvs (py ''error'') of
             Some (PyDict evs) \<Rightarrow> map_of evs (py ''error_subcode'')
           | _ \<Rightarrow> None)
      | _ \<Rightarrow> None)"

text \<open>The \<open>k\<close>-th publish call fails with the retryable subcode.\<close>

definition retry_at :: "world \<Rightarrow> nat \<Rightarrow> bool" where
  "retry_at w k =
     (case publish_res w k of
        Raises e \<Rightarrow> False
      | Returns pub \<Rightarrow> status_code pub \<noteq> 200 \<and> retryable pub)"

text \<open>What a publish call that is not retried makes of the publish step.\<close>

definition publish_end :: "response outcome \<Rightarrow> bool flow" where
  "publish_end r = (case r of Raises e \<Rightarrow> Exc e | Returns pub \<Rightarrow> Ret (status_code pub = 200))"

definition publish_result :: "response outcome \<Rightarrow> bool outcome" where
  "publish_result r =
     (case r of Raises e \<Rightarrow> Raises e | Returns pub \<Rightarrow> Returns (status_code pub = 200))"

text \<open>
  What a poll call tells the polling loop: go on (\<open>Pending\<close>: a 200 response with a
  JSON object whose status is neither FINISHED nor ERROR), the status FINISHED, the
  status ERROR, a response other than 200, or no answer the loop can read (the call
  raised, or the body of a 200 response is not a JSON object).
\<close>

datatype poll_class = Pending | Finished | TranscodeError | Non200 | Unreadable

definition classify_poll :: "response outcome \<Rightarrow> poll_class" where
  "classify_poll r =
     (case r of
        Raises e \<Rightarrow> Unreadable
      | Returns poll \<Rightarrow>
          if status_code poll \<noteq> 200 then Non200
          else
            (case json_get poll (py ''status'') of
               Raises e \<Rightarrow> Unreadable
             | Returns status \<Rightarrow>
                 if py_eq_str status (py ''FINISHED'') then Finished
                 else if py_eq_str status (py ''ERROR'') then TranscodeError
                 else Pending))"

text \<open>The uploader after \<open>n\<close> polls that all said to go on.\<close>

fun pending_polls :: "nat \<Rightarrow> state \<Rightarrow> state" where
  "pending_polls 0 st = st"
| "pending_polls (Suc n) st = pending_polls n (emit (Sleep 1) (emit HttpPoll st))"

text \<open>The container creation succeeded: a 200 response with a creation id.\<close>

definition container_created :: "world \<Rightarrow> bool" where
  "container_created w =
     (case create_res w of
        Raises e \<Rightarrow> False
      | Returns res \<Rightarrow>
          status_code res = 200 \<and>
          (case json_get res (py ''id'') of Raises e \<Rightarrow> False | Returns cid \<Rightarrow> truthy cid))"

text \<open>
  The uploader when \<open>post_to_threads\<close> has asked for the link, listed the folder (its
  entries being \<open>es\<close>) and announced the upload.
\<close>

definition uploading :: "dbx_file \<Rightarrow> dbx_file list \<Rightarrow> state \<Rightarrow> state" where
  "uploading f es st =
     send_message
       ([128640] @ py '' Uploading to Threads: '' @ name f @ nl
          @ [128208] @ py '' Type: '' @ media_type_of f @ nl
          @ [128230] @ py '' Remaining: '' @ str_of_nat (length (filter eligible es)))
       INFO (emit ListFolder (emit (GetTemporaryLink (path_lower f)) st))"

text \<open>The call of \<open>post_to_threads\<close> as \<open>run_with_file\<close> makes it.\<close>

definition publisher_call :: "world \<Rightarrow> dbx_file \<Rightarrow> state \<Rightarrow> bool outcome \<times> state" where
  "publisher_call w f st =
     (case get_caption_from_config w (started w st) of
        (caption, st2) \<Rightarrow> post_to_threads w f caption (emit Authenticate st2))"

text \<open>A text cut into pieces of 4000 characters, the last one shorter.\<close>

definition chunks :: "str \<Rightarrow> str list" where
  "chunks s = map (\<lambda>i. slice s i (i + 4000)) (range_step 0 (length s) 4000)"

section \<open>Sample inputs\<close>

definition http :: "int \<Rightarrow> pyval outcome \<Rightarrow> response" where
  "http code body = \<lparr>status_code = code, text_body = [], json = body\<rparr>"

definition sample_file :: dbx_file where
  "sample_file = \<lparr>name = py ''a.mp4'', path_lower = py ''/t/a.mp4''\<rparr>"

definition sample_state :: state where
  "sample_state = \<lparr>account_name = py ''inkwisp'', telegram_bot = True, log_buffer = [], trace = []\<rparr>"

text \<open>An environment in which every call succeeds at once.\<close>

definition sample_world :: world where
  "sample_world =
     \<lparr>bot_configured = True,
      now_str = py ''2026-01-01 09:00:00'',
      duration_str = py ''4.2'',
      config_caption = Returns None,
      auth_main = Returns (),
      entries_main = Returns [sample_file],
      choice_main = 0,
      auth_run = Returns (),
      entries_run = Returns [sample_file],
      choice_run = 0,
      temp_link = Returns (Some (py ''https://dl/a'')),
      entries_post = Returns [sample_file],
      create_res = Returns (http 200 (Returns (PyDict [(py ''id'', PyStr (py ''17''))]))),
      poll_res = (\<lambda>k. Returns (http 200 (Returns (PyDict [(py ''status'', PyStr (py ''FINISHED''))])))),
      publish_res = (\<lambda>k. Returns (http 200 (Returns (PyDict [(py ''id'', PyStr (py ''18''))])))),
      delete_res = Returns (),
      tg_send = (\<lambda>k. Returns ())\<rparr>"

text \<open>Responses used in the examples.\<close>

definition not_ready :: "response outcome" where
  "not_ready =
     Returns (http 400 (Returns (PyDict [(py ''error'', PyDict [(py ''error_subcode'', PyInt 2207032)])])))"

definition html_500 :: "response outcome" where
  "html_500 = Returns (http 500 (Raises (py ''JSONDecodeError'')))"

definition in_progress :: "response outcome" where
  "in_progress = Returns (http 200 (Returns (PyDict [(py ''status'', PyStr (py ''IN_PROGRESS''))])))"

definition html_200 :: "response outcome" where
  "html_200 = Returns (http 200 (Raises (py ''JSONDecodeError'')))"

section \<open>The log buffer\<close>

text \<open>
  C10: after \<open>send_log_summary\<close> the log buffer is empty, whatever the uploader was
  (bot configured or not, buffer empty or not) and whatever the sends did.
\<close>

theorem send_log_summary_clears_buffer:
  "log_buffer (send_log_summary w st) = []"
  by (simp add: send_log_summary_def Let_def)

section \<open>Events of the steps\<close>

lemma trace_emit [simp]: "trace (emit e st) = trace st @ [e]"
  by (simp add: emit_def)
lemma account_name_emit [simp]: "account_name (emit e st) = account_name st"
  by (simp add: emit_def)
lemma log_buffer_emit [simp]: "log_buffer (emit e st) = log_buffer st"
  by (simp add: emit_def)
lemma telegram_bot_emit [simp]: "telegram_bot (emit e st) = telegram_bot st"
  by (simp add: emit_def)
lemma account_name_send_message [simp]: "account_name (send_message m l st) = account_name st"
  by (simp add: send_message_def Let_def)
lemma telegram_bot_send_message [simp]: "telegram_bot (send_message m l st) = telegram_bot st"
  by (simp add: send_message_def Let_def)
lemma trace_send_message: "\<exists>t. trace (send_message m l st) = trace st @ [Logged l t]"
  by (simp add: send_message_def Let_def)

lemma polls_emit [simp]: "polls (emit e st) = (if e = HttpPoll then Suc (polls st) else polls st)"
  by (simp add: polls_def)
lemma polls_send_message [simp]: "polls (send_message m l st) = polls st"
  by (simp add: polls_def send_message_def Let_def)
lemma publishes_emit [simp]:
  "publishes (emit e st) = (if e = HttpPublish then Suc (publishes st) else publishes st)"
  by (simp add: publishes_def)
lemma publishes_send_message [simp]: "publishes (send_message m l st) = publishes st"
  by (simp add: publishes_def send_message_def Let_def)
lemma deletes_emit [simp]:
  "deletes (emit e st) = (if is_delete e then Suc (deletes st) else deletes st)"
  by (simp add: deletes_def)
lemma deletes_send_message [simp]: "deletes (send_message m l st) = deletes st"
  by (simp add: deletes_def send_message_def Let_def)

lemma creates_emit [simp]:
  "creates (emit e st) = (if is_create e then Suc (creates st) else creates st)"
  by (simp add: creates_def)

lemma creates_send_message [simp]: "creates (send_message m l st) = creates st"
  by (simp add: creates_def send_message_def Let_def)

lemma choices_emit [simp]:
  "choices (emit e st) = (if e = RandomChoice then Suc (choices st) else choices st)"
  by (simp add: choices_def)

lemma choices_send_message [simp]: "choices (send_message m l st) = choices st"
  by (simp add: choices_def send_message_def Let_def)

section \<open>The publish step\<close>

lemma publish_loop_all_retry:
  "(\<forall>k<n. retry_at w (a + k)) \<Longrightarrow>
   fst (publish_loop w f a n st) = Next \<and>
   publishes (snd (publish_loop w f a n st)) = publishes st + n \<and>
   polls (snd (publish_loop w f a n st)) = polls st \<and>
   deletes (snd (publish_loop w f a n st)) = deletes st "
proof (induction n arbitrary: a st)
  case 0
  then show ?case by simp
next
  case (Suc n)
  from Suc.prems have r0: "retry_at w a" by force
  from Suc.prems have rest: "\<forall>k<n. retry_at w (Suc a + k)" by force
  from r0 obtain pub where pub: "publish_res w a = Returns pub" "status_code pub \<noteq> 200" "retryable pub"
    by (auto simp: retry_at_def split: outcome.splits)
  show ?case using pub Suc.IH [OF rest] by (simp add: Let_def)
qed

lemma publish_loop_stop:
  "j < n \<Longrightarrow> (\<forall>k<j. retry_at w (a + k)) \<Longrightarrow> \<not> retry_at w (a + j) \<Longrightarrow>
   fst (publish_loop w f a n st) = publish_end (publish_res w (a + j)) \<and>
   publishes (snd (publish_loop w f a n st)) = publishes st + Suc j \<and>
   polls (snd (publish_loop w f a n st)) = polls st \<and>
   deletes (snd (publish_loop w f a n st)) = deletes st"
proof (induction n arbitrary: a j st)
  case 0
  then show ?case by simp
next
  case (Suc n)
  show ?case
  proof (cases j)
    case 0
    with Suc.prems show ?thesis
      by (auto simp: retry_at_def publish_end_def Let_def split: outcome.splits)
  next
    case (Suc j')
    from Suc.prems Suc have r0: "retry_at w a" by force
    from Suc.prems Suc have rest: "\<forall>k<j'. retry_at w (Suc a + k)" by force
    from Suc.prems Suc have stop: "\<not> retry_at w (Suc a + j')" "j' < n" by auto
    from r0 obtain pub where pub: "publish_res w a = Returns pub" "status_code pub \<noteq> 200" "retryable pub"
      by (auto simp: retry_at_def split: outcome.splits)
    show ?thesis using pub Suc Suc.IH [OF stop(2) rest stop(1)] by (simp add: Let_def)
  qed
qed


lemma retryable_iff:
  "retryable pub \<longleftrightarrow> (\<exists>c. error_subcode pub = Some c \<and> py_eq_int c 2207032)"
  by (auto simp: retryable_def error_subcode_def dict_get_def
           split: outcome.splits pyval.splits option.splits)

lemma retry_at_iff:
  "retry_at w k \<longleftrightarrow>
     (\<exists>pub c. publish_res w k = Returns pub \<and> status_code pub \<noteq> 200 \<and>
              error_subcode pub = Some c \<and> py_eq_int c 2207032)"
  by (cases "publish_res w k") (auto simp: retry_at_def retryable_iff)

lemma publish_step_stop:
  assumes "j < 3" "\<forall>k<j. retry_at w k" "\<not> retry_at w j"
  shows "fst (publish_step w f st) = publish_result (publish_res w j) \<and>
         publishes (snd (publish_step w f st)) = publishes st + Suc j \<and>
         polls (snd (publish_step w f st)) = polls st \<and>
         deletes (snd (publish_step w f st)) = deletes st"
proof -
  define st1 where "st1 = (if account_name st = py ''eclipsed.by.you''
                 then emit (Sleep 5)
                        (send_message
                           ([9203] @ py '' Extra wait before publishing for first account...'')
                           INFO st)
                 else st)"
  have c: "publishes st1 = publishes st" "polls st1 = polls st" "deletes st1 = deletes st"
    by (simp_all add: st1_def)
  from assms have "\<forall>k<j. retry_at w (0 + k)" "\<not> retry_at w (0 + j)" by simp_all
  from publish_loop_stop [OF assms(1) this, of f st1]
  have L: "fst (publish_loop w f 0 3 st1) = publish_end (publish_res w j)"
     "publishes (snd (publish_loop w f 0 3 st1)) = publishes st + Suc j"
     "polls (snd (publish_loop w f 0 3 st1)) = polls st"
     "deletes (snd (publish_loop w f 0 3 st1)) = deletes st"
    using c by simp_all
  obtain x st2 where eq: "publish_loop w f 0 3 st1 = (x, st2)" by (cases "publish_loop w f 0 3 st1")
  have ps: "publish_step w f st = (case (x, st2) of
           (Ret b, st2) \<Rightarrow> (Returns b, st2)
         | (Exc e, st2) \<Rightarrow> (Raises e, st2)
         | (Next, st2) \<Rightarrow>
             (Returns False,
              send_message ([10060] @ py '' Threads publish failed after retries: '' @ name f)
                ERROR st2))"
    unfolding publish_step_def st1_def [symmetric] Let_def eq ..
  from L eq show ?thesis unfolding ps
    by (auto simp: publish_end_def publish_result_def split: outcome.splits flow.splits)
qed

lemma publish_step_exhausted:
  assumes "\<forall>k<3. retry_at w k"
  shows "fst (publish_step w f st) = Returns False \<and>
         publishes (snd (publish_step w f st)) = publishes st + 3 \<and>
         polls (snd (publish_step w f st)) = polls st \<and>
         deletes (snd (publish_step w f st)) = deletes st"
proof -
  define st1 where "st1 = (if account_name st = py ''eclipsed.by.you''
                 then emit (Sleep 5)
                        (send_message
                           ([9203] @ py '' Extra wait before publishing for first account...'')
                           INFO st)
                 else st)"
  have c: "publishes st1 = publishes st" "polls st1 = polls st" "deletes st1 = deletes st"
    by (simp_all add: st1_def)
  from assms have "\<forall>k<3. retry_at w (0 + k)" by simp
  from publish_loop_all_retry [OF this, of f st1]
  have L: "fst (publish_loop w f 0 3 st1) = Next"
     "publishes (snd (publish_loop w f 0 3 st1)) = publishes st + 3"
     "polls (snd (publish_loop w f 0 3 st1)) = polls st"
     "deletes (snd (publish_loop w f 0 3 st1)) = deletes st"
    using c by simp_all
  obtain x st2 where eq: "publish_loop w f 0 3 st1 = (x, st2)" by (cases "publish_loop w f 0 3 st1")
  have ps: "publish_step w f st = (case (x, st2) of
           (Ret b, st2) \<Rightarrow> (Returns b, st2)
         | (Exc e, st2) \<Rightarrow> (Raises e, st2)
         | (Next, st2) \<Rightarrow>
             (Returns False,
              send_message ([10060] @ py '' Threads publish failed after retries: '' @ name f)
                ERROR st2))"
    unfolding publish_step_def st1_def [symmetric] Let_def eq ..
  from L eq show ?thesis unfolding ps by simp
qed

lemma publish_step_cases:
  obtains (stop) j where "j < 3" "\<forall>k<j. retry_at w k" "\<not> retry_at w j"
      "fst (publish_step w f st) = publish_result (publish_res w j)"
      "publishes (snd (publish_step w f st)) = publishes st + Suc j"
    | (exhausted) "\<forall>k<3. retry_at w k" "fst (publish_step w f st) = Returns False"
      "publishes (snd (publish_step w f st)) = publishes st + 3"
proof (cases "\<forall>k<3. retry_at w k")
  case True
  with publish_step_exhausted [OF True, of f st] exhausted show ?thesis by blast
next
  case False
  then have "\<exists>j. j < 3 \<and> \<not> retry_at w j" by blast
  then obtain j where j: "j < 3 \<and> \<not> retry_at w j" "\<forall>m<j. \<not> (m < 3 \<and> \<not> retry_at w m)"
    unfolding exists_least_iff [of "\<lambda>j. j < 3 \<and> \<not> retry_at w j"] by blast
  then have a: "j < 3" "\<forall>k<j. retry_at w k" "\<not> retry_at w j" by auto
  from publish_step_stop [OF a, of f st] stop [OF a] show ?thesis by blast
qed

text \<open>
  C1: in the publish step, with \<open>n\<close> the number of publish calls it makes, for every
  sequence of outcomes of the publish calls: \<open>n\<close> is at least 1 and at most 3; a
  further call after the \<open>k\<close>-th is made only when the \<open>k\<close>-th response is a failure
  (not 200) whose JSON error object carries an \<open>error_subcode\<close> equal to 2207032; a
  failed response with another subcode or none ends the step at once with the result
  \<open>False\<close>; and when all three responses are failures the result is \<open>False\<close>.
\<close>

theorem publish_retry_policy:
  "let r = publish_step w f st; n = publishes (snd r) - publishes st in
     1 \<le> n \<and> n \<le> 3 \<and>
     (\<forall>k. Suc k < n \<longrightarrow>
        (\<exists>pub c. publish_res w k = Returns pub \<and> status_code pub \<noteq> 200 \<and>
                 error_subcode pub = Some c \<and> py_eq_int c 2207032)) \<and>
     (\<forall>k pub. k < n \<and> publish_res w k = Returns pub \<and> status_code pub \<noteq> 200 \<and>
        \<not> (\<exists>c. error_subcode pub = Some c \<and> py_eq_int c 2207032) \<longrightarrow>
        n = Suc k \<and> fst r = Returns False) \<and>
     ((\<forall>k<3. \<exists>pub. publish_res w k = Returns pub \<and> status_code pub \<noteq> 200) \<longrightarrow>
        fst r = Returns False)"
proof (cases rule: publish_step_cases [of w f st])
  case (stop j)
  have n: "publishes (snd (publish_step w f st)) - publishes st = Suc j"
    using stop(5) by simp
  have retry: "\<exists>pub c. publish_res w k = Returns pub \<and> status_code pub \<noteq> 200 \<and>
                 error_subcode pub = Some c \<and> py_eq_int c 2207032" if "k < j" for k
    using stop(2) that by (simp add: retry_at_iff)
  have stops: "k = j \<and> fst (publish_step w f st) = Returns False"
    if "k < Suc j" "publish_res w k = Returns pub" "status_code pub \<noteq> 200"
       "\<not> (\<exists>c. error_subcode pub = Some c \<and> py_eq_int c 2207032)" for k pub
  proof -
    have "\<not> retry_at w k" using that by (simp add: retry_at_iff)
    with stop(2) that(1) have "k = j" by (metis less_Suc_eq)
    with that stop(4) show ?thesis by (simp add: publish_result_def)
  qed
  have all: "fst (publish_step w f st) = Returns False"
    if "\<forall>k<3. \<exists>pub. publish_res w k = Returns pub \<and> status_code pub \<noteq> 200"
    using that stop(1,4) by (auto simp: publish_result_def)
  show ?thesis unfolding Let_def n using stop(1) retry stops all by auto
next
  case exhausted
  have n: "publishes (snd (publish_step w f st)) - publishes st = 3"
    using exhausted(3) by simp
  have retry: "\<exists>pub c. publish_res w k = Returns pub \<and> status_code pub \<noteq> 200 \<and>
                 error_subcode pub = Some c \<and> py_eq_int c 2207032" if "k < 3" for k
    using exhausted(1) that by (simp add: retry_at_iff)
  have stops: False
    if "k < 3" "publish_res w k = Returns pub" "status_code pub \<noteq> 200"
       "\<not> (\<exists>c. error_subcode pub = Some c \<and> py_eq_int c 2207032)" for k pub
    using exhausted(1) that by (auto simp: retry_at_iff)
  show ?thesis unfolding Let_def n using retry stops exhausted(2) by auto
qed


theorem publish_retry_policy_witness:
  "fst (publish_step (sample_world\<lparr>publish_res := \<lambda>k. not_ready\<rparr>) sample_file sample_state)
     = Returns False \<and>
   fst (publish_step (sample_world\<lparr>publish_res := \<lambda>k. html_500\<rparr>) sample_file sample_state)
     = Returns False \<and>
   publishes (snd (publish_step (sample_world\<lparr>publish_res := \<lambda>k. html_500\<rparr>)
     sample_file sample_state)) - publishes sample_state = 1"
proof -
  let ?w1 = "sample_world\<lparr>publish_res := \<lambda>k. not_ready\<rparr>"
  let ?w2 = "sample_world\<lparr>publish_res := \<lambda>k. html_500\<rparr>"
  have all_fail: "\<forall>k<3. \<exists>pub. publish_res ?w1 k = Returns pub \<and> status_code pub \<noteq> 200"
    by (simp add: not_ready_def http_def)
  have a: "fst (publish_step ?w1 sample_file sample_state) = Returns False"
    using publish_retry_policy [of ?w1 sample_file sample_state] all_fail
    unfolding Let_def by blast
  have no_code: "publish_res ?w2 0 = Returns (http 500 (Raises (py ''JSONDecodeError'')))"
    "status_code (http 500 (Raises (py ''JSONDecodeError''))) \<noteq> 200"
    "\<not> (\<exists>c. error_subcode (http 500 (Raises (py ''JSONDecodeError''))) = Some c
          \<and> py_eq_int c 2207032)"
    by (simp_all add: html_500_def http_def error_subcode_def)
  have b: "fst (publish_step ?w2 sample_file sample_state) = Returns False \<and>
      publishes (snd (publish_step ?w2 sample_file sample_state)) - publishes sample_state = 1"
    using publish_retry_policy [of ?w2 sample_file sample_state] no_code
    unfolding Let_def
    by (metis One_nat_def less_eq_Suc_le)
  from a b show ?thesis by simp
qed

text \<open>
  C9: in the publish loop, a failed publish response (not 200) that carries no error
  subcode (its body is not JSON, or its JSON is not an object, has no error object, or
  the error object has no \<open>error_subcode\<close>) ends the loop at that attempt: the loop
  returns \<open>False\<close> (it neither raises nor retries) after exactly this one more
  publish call, at every attempt and with any budget left; so the publish step, when it
  receives such a response at its \<open>k\<close>-th call, returns \<open>False\<close> after \<open>k + 1\<close>
  calls.
\<close>

theorem publish_unreadable_failure_is_terminal:
  "(publish_res w attempt = Returns pub \<and> status_code pub \<noteq> 200 \<and> error_subcode pub = None \<longrightarrow>
      fst (publish_loop w f attempt (Suc n) st) = Ret False \<and>
      publishes (snd (publish_loop w f attempt (Suc n) st)) = publishes st + 1) \<and>
   (k < publishes (snd (publish_step w f st)) - publishes st \<and>
    publish_res w k = Returns pub \<and> status_code pub \<noteq> 200 \<and> error_subcode pub = None \<longrightarrow>
      fst (publish_step w f st) = Returns False \<and>
      publishes (snd (publish_step w f st)) = publishes st + Suc k)"
proof (intro conjI impI)
  assume a: "publish_res w attempt = Returns pub \<and> status_code pub \<noteq> 200 \<and> error_subcode pub = None"
  then have "\<not> retryable pub" by (simp add: retryable_iff)
  with a show "fst (publish_loop w f attempt (Suc n) st) = Ret False"
    and "publishes (snd (publish_loop w f attempt (Suc n) st)) = publishes st + 1"
    by (simp_all add: Let_def)
next
  assume a: "k < publishes (snd (publish_step w f st)) - publishes st \<and>
    publish_res w k = Returns pub \<and> status_code pub \<noteq> 200 \<and> error_subcode pub = None"
  then have nr: "\<not> retry_at w k" by (simp add: retry_at_iff)
  have "fst (publish_step w f st) = Returns False \<and>
      publishes (snd (publish_step w f st)) = publishes st + Suc k"
  proof (cases rule: publish_step_cases [of w f st])
    case (stop j)
    from a stop(5) have "k < Suc j" by simp
    with stop(2) nr have "k = j" by (metis less_Suc_eq)
    with a stop(4,5) show ?thesis by (simp add: publish_result_def)
  next
    case exhausted
    from a exhausted(3) have "k < 3" by simp
    with exhausted(1) nr show ?thesis by blast
  qed
  then show "fst (publish_step w f st) = Returns False"
    and "publishes (snd (publish_step w f st)) = publishes st + Suc k" by simp_all
qed

theorem publish_unreadable_failure_is_terminal_witness:
  "fst (publish_loop (sample_world\<lparr>publish_res := \<lambda>k. html_500\<rparr>) sample_file 1 (Suc 1) sample_state)
     = Ret False \<and>
   publishes (snd (publish_loop (sample_world\<lparr>publish_res := \<lambda>k. html_500\<rparr>) sample_file 1 (Suc 1)
     sample_state)) = publishes sample_state + 1"
proof -
  let ?w = "sample_world\<lparr>publish_res := \<lambda>k. html_500\<rparr>"
  let ?pub = "http 500 (Raises (py ''JSONDecodeError''))"
  have h: "publish_res ?w 1 = Returns ?pub \<and> status_code ?pub \<noteq> 200 \<and> error_subcode ?pub = None"
    by (simp add: html_500_def http_def error_subcode_def)
  from publish_unreadable_failure_is_terminal [of ?w 1 ?pub sample_file 1 sample_state] h
  show ?thesis by blast
qed

section \<open>The polling loop\<close>

lemma pending_polls_counts [simp]:
  "polls (pending_polls n st) = polls st + n"
  "publishes (pending_polls n st) = publishes st"
  "deletes (pending_polls n st) = deletes st"
  by (induction n arbitrary: st) simp_all

lemma classify_pending:
  assumes "classify_poll (poll_res w i) = Pending"
  obtains poll status where "poll_res w i = Returns poll" "status_code poll = 200"
    "json_get poll (py ''status'') = Returns status"
    "\<not> py_eq_str status (py ''FINISHED'')" "\<not> py_eq_str status (py ''ERROR'')"
  using assms unfolding classify_poll_def
  by (auto split: outcome.splits if_splits)

lemma poll_loop_all_pending:
  "(\<forall>k<n. classify_poll (poll_res w (i + k)) = Pending) \<Longrightarrow>
   poll_loop w f i n st = (Next, pending_polls n st)"
proof (induction n arbitrary: i st)
  case 0
  then show ?case by simp
next
  case (Suc n)
  from Suc.prems have "classify_poll (poll_res w i) = Pending" by force
  then obtain poll status where p: "poll_res w i = Returns poll" "status_code poll = 200"
    "json_get poll (py ''status'') = Returns status"
    "\<not> py_eq_str status (py ''FINISHED'')" "\<not> py_eq_str status (py ''ERROR'')"
    by (rule classify_pending)
  from Suc.prems have rest: "\<forall>k<n. classify_poll (poll_res w (Suc i + k)) = Pending" by force
  show ?case using p Suc.IH [OF rest] by (simp add: Let_def)
qed

text \<open>What the loop does with the first poll that does not say to go on.\<close>

lemma poll_loop_settled:
  assumes "classify_poll (poll_res w i) \<noteq> Pending"
  shows "case classify_poll (poll_res w i) of
           Pending \<Rightarrow> True
         | Finished \<Rightarrow> poll_loop w f i (Suc n) st = (Next, emit (Sleep 3) (emit HttpPoll st))
         | TranscodeError \<Rightarrow>
             fst (poll_loop w f i (Suc n) st) = Ret False \<and>
             polls (snd (poll_loop w f i (Suc n) st)) = Suc (polls st) \<and>
             publishes (snd (poll_loop w f i (Suc n) st)) = publishes st
         | Non200 \<Rightarrow>
             fst (poll_loop w f i (Suc n) st) = Ret False \<and>
             polls (snd (poll_loop w f i (Suc n) st)) = Suc (polls st) \<and>
             publishes (snd (poll_loop w f i (Suc n) st)) = publishes st
         | Unreadable \<Rightarrow>
             (\<exists>e. fst (poll_loop w f i (Suc n) st) = Exc e) \<and>
             polls (snd (poll_loop w f i (Suc n) st)) = Suc (polls st) \<and>
             publishes (snd (poll_loop w f i (Suc n) st)) = publishes st"
  using assms unfolding classify_poll_def
  by (auto simp: Let_def split: outcome.splits)

lemma poll_loop_stop:
  "j < n \<Longrightarrow> (\<forall>k<j. classify_poll (poll_res w (i + k)) = Pending) \<Longrightarrow>
   poll_loop w f i n st = poll_loop w f (i + j) (n - j) (pending_polls j st)"
proof (induction j arbitrary: i n st)
  case 0
  then show ?case by simp
next
  case (Suc j)
  from Suc.prems obtain n' where n: "n = Suc n'" "j < n'" by (cases n) auto
  from Suc.prems have "classify_poll (poll_res w i) = Pending" by force
  then obtain poll status where p: "poll_res w i = Returns poll" "status_code poll = 200"
    "json_get poll (py ''status'') = Returns status"
    "\<not> py_eq_str status (py ''FINISHED'')" "\<not> py_eq_str status (py ''ERROR'')"
    by (rule classify_pending)
  from Suc.prems have rest: "\<forall>k<j. classify_poll (poll_res w (Suc i + k)) = Pending" by force
  show ?case using p n Suc.IH [OF n(2) rest] by (simp add: Let_def)
qed


lemma poll_loop_keeps:
  "publishes (snd (poll_loop w f i n st)) = publishes st \<and>
   deletes (snd (poll_loop w f i n st)) = deletes st \<and>
   creates (snd (poll_loop w f i n st)) = creates st \<and>
   choices (snd (poll_loop w f i n st)) = choices st"
  by (induction n arbitrary: i st) (auto simp: Let_def split: outcome.splits)

lemma publish_loop_keeps:
  "polls (snd (publish_loop w f a n st)) = polls st \<and>
   deletes (snd (publish_loop w f a n st)) = deletes st \<and>
   creates (snd (publish_loop w f a n st)) = creates st \<and>
   choices (snd (publish_loop w f a n st)) = choices st"
  by (induction n arbitrary: a st) (auto simp: Let_def split: outcome.splits)

lemma publish_step_keeps:
  "polls (snd (publish_step w f st)) = polls st \<and>
   deletes (snd (publish_step w f st)) = deletes st \<and>
   creates (snd (publish_step w f st)) = creates st \<and>
   choices (snd (publish_step w f st)) = choices st"
proof -
  define st1 where "st1 = (if account_name st = py ''eclipsed.by.you''
                 then emit (Sleep 5)
                        (send_message
                           ([9203] @ py '' Extra wait before publishing for first account...'')
                           INFO st)
                 else st)"
  have c: "polls st1 = polls st" "deletes st1 = deletes st" "creates st1 = creates st"
    "choices st1 = choices st"
    by (simp_all add: st1_def)
  obtain x st2 where eq: "publish_loop w f 0 3 st1 = (x, st2)" by (cases "publish_loop w f 0 3 st1")
  have ps: "publish_step w f st = (case (x, st2) of
           (Ret b, st2) \<Rightarrow> (Returns b, st2)
         | (Exc e, st2) \<Rightarrow> (Raises e, st2)
         | (Next, st2) \<Rightarrow>
             (Returns False,
              send_message ([10060] @ py '' Threads publish failed after retries: '' @ name f)
                ERROR st2))"
    unfolding publish_step_def st1_def [symmetric] Let_def eq ..
  from publish_loop_keeps [of w f 0 3 st1] eq c show ?thesis unfolding ps
    by (auto split: flow.splits)
qed

lemma publish_step_at_least_one:
  "publishes st < publishes (snd (publish_step w f st))"
  by (cases rule: publish_step_cases [of w f st]) simp_all

lemma media_post_created:
  assumes "container_created w"
  shows "media_post w f cap mt link st =
     (case poll_loop w f 0 20 (emit (HttpCreate mt cap (Some link)) st) of
        (Ret b, st2) \<Rightarrow> (Returns b, st2)
      | (Exc e, st2) \<Rightarrow> (Raises e, st2)
      | (Next, st2) \<Rightarrow> publish_step w f st2)"
  using assms unfolding container_created_def media_post_def Let_def
  by (auto split: outcome.splits)

text \<open>The polling loop when the first poll that does not say to go on is the \<open>j\<close>-th.\<close>

lemma media_post_settled:
  assumes created: "container_created w"
    and j: "j < 20" "\<forall>k<j. classify_poll (poll_res w k) = Pending"
  shows "case classify_poll (poll_res w j) of
           Pending \<Rightarrow> True
         | Finished \<Rightarrow>
             polls (snd (media_post w f cap mt link st)) = polls st + Suc j \<and>
             media_post w f cap mt link st =
               publish_step w f
                 (emit (Sleep 3) (emit HttpPoll
                    (pending_polls j (emit (HttpCreate mt cap (Some link)) st))))
         | TranscodeError \<Rightarrow>
             polls (snd (media_post w f cap mt link st)) = polls st + Suc j \<and>
             fst (media_post w f cap mt link st) = Returns False \<and>
             publishes (snd (media_post w f cap mt link st)) = publishes st
         | Non200 \<Rightarrow>
             polls (snd (media_post w f cap mt link st)) = polls st + Suc j \<and>
             fst (media_post w f cap mt link st) = Returns False \<and>
             publishes (snd (media_post w f cap mt link st)) = publishes st
         | Unreadable \<Rightarrow>
             polls (snd (media_post w f cap mt link st)) = polls st + Suc j \<and>
             (\<exists>e. fst (media_post w f cap mt link st) = Raises e) \<and>
             publishes (snd (media_post w f cap mt link st)) = publishes st"
proof (cases "classify_poll (poll_res w j) = Pending")
  case True
  then show ?thesis by simp
next
  case False
  define st1 where "st1 = emit (HttpCreate mt cap (Some link)) st"
  define stj where "stj = pending_polls j st1"
  have c1: "polls st1 = polls st" "publishes st1 = publishes st" by (simp_all add: st1_def)
  have cj: "polls stj = polls st + j" "publishes stj = publishes st"
    by (simp_all add: stj_def c1)
  from j(1) obtain m where m: "20 - j = Suc m" by (cases "20 - j") auto
  from j have "\<forall>k<j. classify_poll (poll_res w (0 + k)) = Pending" by simp
  from poll_loop_stop [OF j(1) this, of f st1]
  have loop: "poll_loop w f 0 20 st1 = poll_loop w f j (Suc m) stj"
    by (simp add: m stj_def)
  note mp = media_post_created [OF created, of f cap mt link st, folded st1_def, unfolded loop]
  note settled = poll_loop_settled [OF False, of f m stj]
  obtain x st2 where eq: "poll_loop w f j (Suc m) stj = (x, st2)"
    by (cases "poll_loop w f j (Suc m) stj")
  show ?thesis
  proof (cases "classify_poll (poll_res w j)")
    case Pending
    with False show ?thesis by simp
  next
    case Finished
    with settled have "poll_loop w f j (Suc m) stj = (Next, emit (Sleep 3) (emit HttpPoll stj))"
      by simp
    with mp have e: "media_post w f cap mt link st = publish_step w f (emit (Sleep 3) (emit HttpPoll stj))"
      by simp
    have "polls (snd (media_post w f cap mt link st)) = polls st + Suc j"
      unfolding e using publish_step_keeps [of w f "emit (Sleep 3) (emit HttpPoll stj)"] cj
      by simp
    with e Finished show ?thesis by (simp add: stj_def st1_def)
  next
    case TranscodeError
    with settled eq mp cj show ?thesis by (auto split: flow.splits)
  next
    case Non200
    with settled eq mp cj show ?thesis by (auto split: flow.splits)
  next
    case Unreadable
    with settled eq mp cj show ?thesis by (auto split: flow.splits)
  qed
qed

lemma media_post_exhausted:
  assumes created: "container_created w"
    and all: "\<forall>k<20. classify_poll (poll_res w k) = Pending"
  shows "media_post w f cap mt link st =
           publish_step w f (pending_polls 20 (emit (HttpCreate mt cap (Some link)) st))"
    and "polls (snd (media_post w f cap mt link st)) = polls st + 20"
proof -
  from all have "\<forall>k<20. classify_poll (poll_res w (0 + k)) = Pending" by simp
  from poll_loop_all_pending [OF this]
  have loop: "poll_loop w f 0 20 st' = (Next, pending_polls 20 st')" for st' .
  show e: "media_post w f cap mt link st =
           publish_step w f (pending_polls 20 (emit (HttpCreate mt cap (Some link)) st))"
    unfolding media_post_created [OF created] loop by simp
  show "polls (snd (media_post w f cap mt link st)) = polls st + 20"
    unfolding e
    using publish_step_keeps [of w f "pending_polls 20 (emit (HttpCreate mt cap (Some link)) st)"]
    by simp
qed

lemma poll_loop_numeral:
  "poll_loop w f i (numeral k) st = poll_loop w f i (Suc (pred_numeral k)) st"
  by (simp add: numeral_eq_Suc)

lemma sample_created [simp]: "container_created (sample_world\<lparr>poll_res := p\<rparr>)"
  by (simp add: container_created_def sample_world_def http_def json_get_def dict_get_def py_def)

lemma media_post_settled_polls:
  assumes "container_created w" "j < 20" "\<forall>k<j. classify_poll (poll_res w k) = Pending"
    and "classify_poll (poll_res w j) \<noteq> Pending"
  shows "polls (snd (media_post w f cap mt link st)) = polls st + Suc j"
proof -
  note F = media_post_settled [OF assms(1-3), of f cap mt link st]
  show ?thesis
  proof (cases "classify_poll (poll_res w j)")
    case Pending
    with assms(4) show ?thesis by simp
  next
    case Finished
    from F [unfolded Finished poll_class.case] show ?thesis by (rule conjunct1)
  next
    case TranscodeError
    from F [unfolded TranscodeError poll_class.case] show ?thesis by (rule conjunct1)
  next
    case Non200
    from F [unfolded Non200 poll_class.case] show ?thesis by (rule conjunct1)
  next
    case Unreadable
    from F [unfolded Unreadable poll_class.case] show ?thesis by (rule conjunct1)
  qed
qed

text \<open>
  C2, as the code has it: after the container is created, with \<open>n\<close> the number of poll
  calls, for every sequence of outcomes of the poll calls: \<open>n\<close> is at most 20; the loop
  stops at the first poll, the \<open>j\<close>-th, that does not say to go on, so \<open>n = j + 1\<close>:
  on the status FINISHED it waits 3 and goes on to the publish step; on the status ERROR
  and on a response other than 200 the result is \<open>False\<close> with no publish call; and on
  a poll call that raises, or a 200 response whose body is not a JSON object, the
  exception leaves the Publisher, with no publish call. When all of the first 20 polls
  say to go on, exactly 20 poll calls are made.
\<close>

theorem poll_policy:
  assumes "container_created w"
  shows "let r = media_post w f cap mt link st; n = polls (snd r) - polls st in
     n \<le> 20 \<and>
     (\<forall>j<20. (\<forall>k<j. classify_poll (poll_res w k) = Pending) \<longrightarrow>
        (case classify_poll (poll_res w j) of
           Pending \<Rightarrow> True
         | Finished \<Rightarrow>
             n = Suc j \<and>
             r = publish_step w f
                   (emit (Sleep 3) (emit HttpPoll
                      (pending_polls j (emit (HttpCreate mt cap (Some link)) st))))
         | TranscodeError \<Rightarrow> n = Suc j \<and> fst r = Returns False \<and> publishes (snd r) = publishes st
         | Non200 \<Rightarrow> n = Suc j \<and> fst r = Returns False \<and> publishes (snd r) = publishes st
         | Unreadable \<Rightarrow>
             n = Suc j \<and> (\<exists>e. fst r = Raises e) \<and> publishes (snd r) = publishes st)) \<and>
     ((\<forall>k<20. classify_poll (poll_res w k) = Pending) \<longrightarrow> n = 20)"
proof -
  let ?r = "media_post w f cap mt link st"
  let ?n = "polls (snd ?r) - polls st"
  have settled: "case classify_poll (poll_res w j) of
           Pending \<Rightarrow> True
         | Finished \<Rightarrow>
             ?n = Suc j \<and>
             ?r = publish_step w f
                   (emit (Sleep 3) (emit HttpPoll
                      (pending_polls j (emit (HttpCreate mt cap (Some link)) st))))
         | TranscodeError \<Rightarrow> ?n = Suc j \<and> fst ?r = Returns False \<and> publishes (snd ?r) = publishes st
         | Non200 \<Rightarrow> ?n = Suc j \<and> fst ?r = Returns False \<and> publishes (snd ?r) = publishes st
         | Unreadable \<Rightarrow>
             ?n = Suc j \<and> (\<exists>e. fst ?r = Raises e) \<and> publishes (snd ?r) = publishes st"
    if "j < 20" "\<forall>k<j. classify_poll (poll_res w k) = Pending" for j
  proof (cases "classify_poll (poll_res w j)")
    case Finished
    note F = media_post_settled [OF assms that, of f cap mt link st, unfolded Finished poll_class.case]
    from F [THEN conjunct1] have "?n = Suc j" by simp
    with F [THEN conjunct2] show ?thesis unfolding Finished poll_class.case by blast
  qed (use media_post_settled [OF assms that, of f cap mt link st] in simp_all)
  have all: "?n = 20" if "\<forall>k<20. classify_poll (poll_res w k) = Pending"
    using media_post_exhausted(2) [OF assms that, of f cap mt link st] by simp
  have bound: "?n \<le> 20"
  proof (cases "\<forall>k<20. classify_poll (poll_res w k) = Pending")
    case True
    with all show ?thesis by simp
  next
    case False
    then have "\<exists>j. j < 20 \<and> classify_poll (poll_res w j) \<noteq> Pending" by blast
    then obtain j where j: "j < 20 \<and> classify_poll (poll_res w j) \<noteq> Pending"
      "\<forall>m<j. \<not> (m < 20 \<and> classify_poll (poll_res w m) \<noteq> Pending)"
      unfolding exists_least_iff [of "\<lambda>j. j < 20 \<and> classify_poll (poll_res w j) \<noteq> Pending"]
      by blast
    then have a: "j < 20" "\<forall>k<j. classify_poll (poll_res w k) = Pending" by auto
    from j(1) have "classify_poll (poll_res w j) \<noteq> Pending" by simp
    from media_post_settled_polls [OF assms a this, of f cap mt link st] a(1)
    show ?thesis by simp
  qed
  from bound settled all show ?thesis unfolding Let_def by blast
qed

text \<open>
  The claim as written fails: a first poll that answers 200 with a body that is not JSON
  has no status FINISHED or ERROR and is not a non-200 response, yet the loop makes one
  poll call, not 20: the exception of \<open>json()\<close> ends it.
\<close>

theorem poll_policy_counterexample:
  "poll_res (sample_world\<lparr>poll_res := \<lambda>k. html_200\<rparr>) 0
     = Returns (http 200 (Raises (py ''JSONDecodeError''))) \<and>
   status_code (http 200 (Raises (py ''JSONDecodeError''))) = 200 \<and>
   json_get (http 200 (Raises (py ''JSONDecodeError''))) (py ''status'')
     = Raises (py ''JSONDecodeError'') \<and>
   fst (media_post (sample_world\<lparr>poll_res := \<lambda>k. html_200\<rparr>) sample_file [] [] [] sample_state)
     = Raises (py ''JSONDecodeError'') \<and>
   polls (snd (media_post (sample_world\<lparr>poll_res := \<lambda>k. html_200\<rparr>) sample_file [] [] []
     sample_state)) - polls sample_state = 1"
proof -
  let ?w = "sample_world\<lparr>poll_res := \<lambda>k. html_200\<rparr>"
  have r: "poll_res ?w 0 = Returns (http 200 (Raises (py ''JSONDecodeError'')))"
    by (simp add: html_200_def)
  have s: "status_code (http 200 (Raises (py ''JSONDecodeError''))) = 200"
    "json_get (http 200 (Raises (py ''JSONDecodeError''))) (py ''status'')
       = Raises (py ''JSONDecodeError'')"
    by (simp_all add: http_def json_get_def)
  have loop: "poll_loop ?w sample_file 0 20 st = (Exc (py ''JSONDecodeError''), emit HttpPoll st)"
    for st
    unfolding poll_loop_numeral poll_loop.simps Let_def r using s by simp
  have "media_post ?w sample_file [] [] [] sample_state =
      (Raises (py ''JSONDecodeError''), emit HttpPoll (emit (HttpCreate [] [] (Some [])) sample_state))"
    unfolding media_post_created [OF sample_created] loop by simp
  with r s show ?thesis by simp
qed

text \<open>Twenty polls all in progress; and two polls in progress before a FINISHED one.\<close>

theorem poll_policy_witness:
  "polls (snd (media_post (sample_world\<lparr>poll_res := \<lambda>k. in_progress\<rparr>) sample_file [] [] []
      sample_state)) - polls sample_state = 20 \<and>
   media_post (sample_world\<lparr>poll_res := \<lambda>k. if k < 2 then in_progress else poll_res sample_world k\<rparr>)
      sample_file [] [] [] sample_state =
     publish_step (sample_world\<lparr>poll_res := \<lambda>k. if k < 2 then in_progress else poll_res sample_world k\<rparr>)
       sample_file
       (emit (Sleep 3) (emit HttpPoll
          (pending_polls 2 (emit (HttpCreate [] [] (Some [])) sample_state))))"
proof -
  let ?w1 = "sample_world\<lparr>poll_res := \<lambda>k. in_progress\<rparr>"
  let ?w2 = "sample_world\<lparr>poll_res := \<lambda>k. if k < 2 then in_progress else poll_res sample_world k\<rparr>"
  have p: "classify_poll in_progress = Pending"
    by (simp add: classify_poll_def in_progress_def http_def json_get_def dict_get_def py_def)
  have f: "classify_poll (poll_res sample_world 2) = Finished"
    by (simp add: classify_poll_def sample_world_def http_def json_get_def dict_get_def py_def)
  have a1: "\<forall>k<20. classify_poll (poll_res ?w1 k) = Pending" using p by simp
  have a2: "\<forall>k<2. classify_poll (poll_res ?w2 k) = Pending" using p by simp
  have f2: "classify_poll (poll_res ?w2 2) = Finished" using f by simp
  note P1 = poll_policy [OF sample_created, of "\<lambda>k. in_progress" sample_file "[]" "[]" "[]"
      sample_state, unfolded Let_def]
  from P1 [THEN conjunct2, THEN conjunct2] a1
  have one: "polls (snd (media_post ?w1 sample_file [] [] [] sample_state)) - polls sample_state = 20"
    by (rule mp)
  note P2 = poll_policy [OF sample_created,
      of "\<lambda>k. if k < 2 then in_progress else poll_res sample_world k" sample_file "[]" "[]" "[]"
      sample_state, unfolded Let_def]
  have "(2::nat) < 20" by simp
  note Q = P2 [THEN conjunct2, THEN conjunct1, rule_format, OF this a2 [rule_format], unfolded f2 poll_class.case]
  from one Q [THEN conjunct2] show ?thesis by (rule conjI)
qed

section \<open>Fall-through after the polling budget\<close>

lemma classify_pendingI:
  "poll_res w k = Returns poll \<Longrightarrow> status_code poll = 200 \<Longrightarrow>
   json_get poll (py ''status'') = Returns status \<Longrightarrow>
   \<not> py_eq_str status (py ''FINISHED'') \<Longrightarrow> \<not> py_eq_str status (py ''ERROR'') \<Longrightarrow>
   classify_poll (poll_res w k) = Pending"
  by (simp add: classify_poll_def)

lemma publish_step_first_ok:
  assumes "publish_res w 0 = Returns pub" "status_code pub = 200"
  shows "fst (publish_step w f st) = Returns True"
proof -
  from assms have "\<not> retry_at w 0" by (simp add: retry_at_def)
  from publish_step_stop [of 0 w f st] this assms show ?thesis
    by (simp add: publish_result_def)
qed

text \<open>
  C3: after the container is created, if each of the 20 polls returns a 200 response
  whose status is neither FINISHED nor ERROR, the Publisher does not return at that
  point: it makes exactly 20 poll calls and goes on to the publish step, whose
  result is its result; at least one publish call is made, and if the first publish
  call answers 200 the result is success.
\<close>

theorem poll_budget_falls_through:
  assumes "container_created w"
    and "\<forall>k<20. \<exists>poll status. poll_res w k = Returns poll \<and> status_code poll = 200 \<and>
           json_get poll (py ''status'') = Returns status \<and>
           \<not> py_eq_str status (py ''FINISHED'') \<and> \<not> py_eq_str status (py ''ERROR'')"
  shows "media_post w f cap mt link st =
           publish_step w f (pending_polls 20 (emit (HttpCreate mt cap (Some link)) st)) \<and>
         polls (snd (media_post w f cap mt link st)) = polls st + 20 \<and>
         publishes st < publishes (snd (media_post w f cap mt link st)) \<and>
         (\<forall>pub. publish_res w 0 = Returns pub \<and> status_code pub = 200 \<longrightarrow>
            fst (media_post w f cap mt link st) = Returns True)"
proof -
  let ?st20 = "pending_polls 20 (emit (HttpCreate mt cap (Some link)) st)"
  from assms(2) have all: "\<forall>k<20. classify_poll (poll_res w k) = Pending"
    by (blast intro: classify_pendingI)
  note e = media_post_exhausted(1) [OF assms(1) all, of f cap mt link st]
  note n = media_post_exhausted(2) [OF assms(1) all, of f cap mt link st]
  have "publishes ?st20 < publishes (snd (publish_step w f ?st20))"
    by (rule publish_step_at_least_one)
  then have p: "publishes st < publishes (snd (media_post w f cap mt link st))"
    unfolding e by simp
  have ok: "fst (media_post w f cap mt link st) = Returns True"
    if "publish_res w 0 = Returns pub \<and> status_code pub = 200" for pub
    unfolding e using that publish_step_first_ok [of w pub f ?st20] by blast
  from e n p ok show ?thesis by blast
qed

theorem poll_budget_falls_through_witness:
  "publishes sample_state
     < publishes (snd (media_post (sample_world\<lparr>poll_res := \<lambda>k. in_progress\<rparr>) sample_file [] [] []
         sample_state)) \<and>
   fst (media_post (sample_world\<lparr>poll_res := \<lambda>k. in_progress\<rparr>) sample_file [] [] [] sample_state)
     = Returns True"
proof -
  let ?w = "sample_world\<lparr>poll_res := \<lambda>k. in_progress\<rparr>"
  let ?poll = "http 200 (Returns (PyDict [(py ''status'', PyStr (py ''IN_PROGRESS''))]))"
  have s: "poll_res ?w k = Returns ?poll" "status_code ?poll = 200"
    "json_get ?poll (py ''status'') = Returns (PyStr (py ''IN_PROGRESS''))"
    "\<not> py_eq_str (PyStr (py ''IN_PROGRESS'')) (py ''FINISHED'')"
    "\<not> py_eq_str (PyStr (py ''IN_PROGRESS'')) (py ''ERROR'')" for k
    by (simp_all add: in_progress_def http_def json_get_def dict_get_def py_def)
  have h: "\<forall>k<20. \<exists>poll status. poll_res ?w k = Returns poll \<and> status_code poll = 200 \<and>
           json_get poll (py ''status'') = Returns status \<and>
           \<not> py_eq_str status (py ''FINISHED'') \<and> \<not> py_eq_str status (py ''ERROR'')"
    using s by blast
  have pub: "publish_res ?w 0 = Returns (http 200 (Returns (PyDict [(py ''id'', PyStr (py ''18''))])))
      \<and> status_code (http 200 (Returns (PyDict [(py ''id'', PyStr (py ''18''))]))) = 200"
    by (simp add: sample_world_def http_def)
  note T = poll_budget_falls_through [OF sample_created h, of sample_file "[]" "[]" "[]" sample_state]
  from T [THEN conjunct2, THEN conjunct2, THEN conjunct1]
    T [THEN conjunct2, THEN conjunct2, THEN conjunct2, rule_format, OF pub]
  show ?thesis by (rule conjI)
qed

section \<open>Container creation\<close>

lemma list_dropbox_files_keeps:
  "polls (snd (list_dropbox_files r st)) = polls st \<and>
   publishes (snd (list_dropbox_files r st)) = publishes st \<and>
   deletes (snd (list_dropbox_files r st)) = deletes st \<and>
   creates (snd (list_dropbox_files r st)) = creates st \<and>
   choices (snd (list_dropbox_files r st)) = choices st"
  by (cases r) (simp_all add: list_dropbox_files_def)

lemma post_to_threads_media:
  assumes "temp_link w = Returns (Some link)" "link \<noteq> []" "entries_post w = Returns es"
  shows "post_to_threads w f cap st = media_post w f cap (media_type_of f) link (uploading f es st)"
  using assms by (simp add: post_to_threads_def list_dropbox_files_def uploading_def Let_def)

lemma post_to_threads_text:
  assumes "temp_link w = Returns None \<or> temp_link w = Returns (Some [])"
    "entries_post w = Returns es"
  shows "post_to_threads w f cap st = text_post w f cap (uploading f es st)"
  using assms by (auto simp: post_to_threads_def list_dropbox_files_def uploading_def Let_def)

lemma uploading_keeps [simp]:
  "polls (uploading f es st) = polls st"
  "publishes (uploading f es st) = publishes st"
  "deletes (uploading f es st) = deletes st"
  "creates (uploading f es st) = creates st"
  "choices (uploading f es st) = choices st"
  by (simp_all add: uploading_def)

lemma media_post_not_created:
  assumes "create_res w = Returns res"
    and "status_code res \<noteq> 200 \<or>
         (\<exists>kvs. json res = Returns (PyDict kvs) \<and> map_of kvs (py ''id'') = None)"
  shows "fst (media_post w f cap mt link st) = Returns False \<and>
         polls (snd (media_post w f cap mt link st)) = polls st \<and>
         publishes (snd (media_post w f cap mt link st)) = publishes st"
  using assms by (auto simp: media_post_def json_get_def dict_get_def Let_def)

text \<open>
  C4: on the media path (a temporary link was obtained, so the container-creation call
  is made), if that call returns a response that is not 200, or a 200 response whose
  JSON object has no \<open>id\<close>, the Publisher returns \<open>False\<close> and makes no poll call
  and no publish call.
\<close>

theorem container_creation_failure_is_terminal:
  assumes "temp_link w = Returns (Some link)" "link \<noteq> []" "entries_post w = Returns es"
    and "create_res w = Returns res"
    and "status_code res \<noteq> 200 \<or>
         (\<exists>kvs. json res = Returns (PyDict kvs) \<and> map_of kvs (py ''id'') = None)"
  shows "fst (post_to_threads w f cap st) = Returns False \<and>
         polls (snd (post_to_threads w f cap st)) = polls st \<and>
         publishes (snd (post_to_threads w f cap st)) = publishes st"
proof -
  note e = post_to_threads_media [OF assms(1-3), of f cap st]
  from media_post_not_created [OF assms(4,5), of f cap "media_type_of f" link "uploading f es st"]
  show ?thesis unfolding e by simp
qed

theorem container_creation_failure_is_terminal_witness:
  "fst (post_to_threads (sample_world\<lparr>create_res := html_500\<rparr>) sample_file [] sample_state)
     = Returns False \<and>
   polls (snd (post_to_threads (sample_world\<lparr>create_res := html_500\<rparr>) sample_file [] sample_state))
     = polls sample_state \<and>
   publishes (snd (post_to_threads (sample_world\<lparr>create_res := html_500\<rparr>) sample_file []
     sample_state)) = publishes sample_state \<and>
   fst (post_to_threads (sample_world\<lparr>create_res := Returns (http 200 (Returns (PyDict [])))\<rparr>)
     sample_file [] sample_state) = Returns False"
proof -
  let ?w1 = "sample_world\<lparr>create_res := html_500\<rparr>"
  let ?w2 = "sample_world\<lparr>create_res := Returns (http 200 (Returns (PyDict [])))\<rparr>"
  have l: "temp_link ?w1 = Returns (Some (py ''https://dl/a''))"
    "temp_link ?w2 = Returns (Some (py ''https://dl/a''))"
    "py ''https://dl/a'' \<noteq> []"
    "entries_post ?w1 = Returns [sample_file]" "entries_post ?w2 = Returns [sample_file]"
    by (simp_all add: sample_world_def py_def)
  have r1: "create_res ?w1 = Returns (http 500 (Raises (py ''JSONDecodeError'')))"
    and c1: "status_code (http 500 (Raises (py ''JSONDecodeError''))) \<noteq> 200 \<or>
      (\<exists>kvs. json (http 500 (Raises (py ''JSONDecodeError''))) = Returns (PyDict kvs) \<and>
         map_of kvs (py ''id'') = None)"
    by (simp_all add: html_500_def http_def)
  have r2: "create_res ?w2 = Returns (http 200 (Returns (PyDict [])))"
    and c2: "status_code (http 200 (Returns (PyDict []))) \<noteq> 200 \<or>
      (\<exists>kvs. json (http 200 (Returns (PyDict []))) = Returns (PyDict kvs) \<and>
         map_of kvs (py ''id'') = None)"
    by (simp_all add: http_def)
  from container_creation_failure_is_terminal [OF l(1) l(3) l(4) r1 c1, of sample_file "[]" sample_state]
    container_creation_failure_is_terminal [OF l(2) l(3) l(5) r2 c2, of sample_file "[]" sample_state]
  show ?thesis by blast
qed

section \<open>What the Publisher leaves alone\<close>

lemma media_post_keeps:
  "deletes (snd (media_post w f cap mt link st)) = deletes st \<and>
   choices (snd (media_post w f cap mt link st)) = choices st"
proof -
  let ?st1 = "emit (HttpCreate mt cap (Some link)) st"
  obtain x st2 where eq: "poll_loop w f 0 20 ?st1 = (x, st2)" by (cases "poll_loop w f 0 20 ?st1")
  from poll_loop_keeps [of w f 0 20 ?st1] eq
  have k: "deletes st2 = deletes st" "choices st2 = choices st" by simp_all
  from publish_step_keeps [of w f st2] k
  have p: "deletes (snd (publish_step w f st2)) = deletes st"
    "choices (snd (publish_step w f st2)) = choices st" by simp_all
  show ?thesis unfolding media_post_def Let_def eq using k p
    by (auto split: outcome.splits flow.splits)
qed

lemma text_post_keeps:
  "deletes (snd (text_post w f cap st)) = deletes st \<and>
   choices (snd (text_post w f cap st)) = choices st \<and>
   publishes (snd (text_post w f cap st)) = publishes st \<and>
   polls (snd (text_post w f cap st)) = polls st"
  by (auto simp: text_post_def Let_def split: outcome.splits)

lemma post_to_threads_keeps:
  "deletes (snd (post_to_threads w f cap st)) = deletes st \<and>
   choices (snd (post_to_threads w f cap st)) = choices st"
proof (cases "temp_link w")
  case (Raises e)
  then show ?thesis by (simp add: post_to_threads_def Let_def)
next
  case (Returns temp)
  show ?thesis
  proof (cases "entries_post w")
    case (Raises e)
    with Returns show ?thesis by (simp add: post_to_threads_def list_dropbox_files_def Let_def)
  next
    case es: (Returns es)
    show ?thesis
    proof (cases "\<exists>link. temp = Some link \<and> link \<noteq> []")
      case True
      then obtain link where l: "temp = Some link" "link \<noteq> []" by blast
      from Returns l have "temp_link w = Returns (Some link)" by simp
      from post_to_threads_media [OF this l(2) es, of f cap st]
        media_post_keeps [of w f cap "media_type_of f" link "uploading f es st"]
      show ?thesis by simp
    next
      case False
      with Returns have "temp_link w = Returns None \<or> temp_link w = Returns (Some [])"
        by (cases temp) auto
      from post_to_threads_text [OF this es, of f cap st]
        text_post_keeps [of w f cap "uploading f es st"]
      show ?thesis by simp
    qed
  qed
qed

section \<open>Flushing the log\<close>

lemma send_chunks_keeps:
  "polls (send_chunks w s is k st) = polls st \<and>
   publishes (send_chunks w s is k st) = publishes st \<and>
   deletes (send_chunks w s is k st) = deletes st \<and>
   creates (send_chunks w s is k st) = creates st \<and>
   choices (send_chunks w s is k st) = choices st"
  by (induction "is" arbitrary: k st) (auto simp: Let_def split: outcome.splits)

lemma counts_log_buffer_update [simp]:
  "polls (st\<lparr>log_buffer := b\<rparr>) = polls st"
  "publishes (st\<lparr>log_buffer := b\<rparr>) = publishes st"
  "deletes (st\<lparr>log_buffer := b\<rparr>) = deletes st"
  "creates (st\<lparr>log_buffer := b\<rparr>) = creates st"
  "choices (st\<lparr>log_buffer := b\<rparr>) = choices st"
  by (simp_all add: polls_def publishes_def deletes_def creates_def choices_def)

lemma send_log_summary_keeps [simp]:
  "polls (send_log_summary w st) = polls st"
  "publishes (send_log_summary w st) = publishes st"
  "deletes (send_log_summary w st) = deletes st"
  "creates (send_log_summary w st) = creates st"
  "choices (send_log_summary w st) = choices st"
  using send_chunks_keeps [of w "join nl (log_buffer st)"
      "range_step 0 (length (join nl (log_buffer st))) 4000" 0 st]
  by (simp_all add: send_log_summary_def Let_def)

lemma finish_keeps [simp]:
  "polls (finish w st) = polls st"
  "publishes (finish w st) = publishes st"
  "deletes (finish w st) = deletes st"
  "creates (finish w st) = creates st"
  "choices (finish w st) = choices st"
  by (simp_all add: finish_def)

lemma started_keeps [simp]:
  "polls (started w st) = polls st"
  "publishes (started w st) = publishes st"
  "deletes (started w st) = deletes st"
  "creates (started w st) = creates st"
  "choices (started w st) = choices st"
  by (simp_all add: started_def)

lemma crashed_keeps [simp]:
  "polls (crashed e st) = polls st"
  "publishes (crashed e st) = publishes st"
  "deletes (crashed e st) = deletes st"
  "creates (crashed e st) = creates st"
  "choices (crashed e st) = choices st"
  by (simp_all add: crashed_def)

lemma get_caption_keeps [simp]:
  "polls (snd (get_caption_from_config w st)) = polls st"
  "publishes (snd (get_caption_from_config w st)) = publishes st"
  "deletes (snd (get_caption_from_config w st)) = deletes st"
  "creates (snd (get_caption_from_config w st)) = creates st"
  "choices (snd (get_caption_from_config w st)) = choices st"
  by (simp_all add: get_caption_from_config_def split: outcome.splits option.splits)

lemma delete_file_counts [simp]:
  "deletes (delete_file w f st) = Suc (deletes st)"
  "polls (delete_file w f st) = polls st"
  "publishes (delete_file w f st) = publishes st"
  "creates (delete_file w f st) = creates st"
  "choices (delete_file w f st) = choices st"
  by (simp_all add: delete_file_def Let_def split: outcome.splits)

section \<open>The run with a chosen file\<close>

lemma run_with_file_returns:
  assumes "auth_run w = Returns u" "fst (publisher_call w f st) = Returns b"
  shows "fst (run_with_file w f st) = (b, Some (name f))"
    and "deletes (snd (run_with_file w f st)) = Suc (deletes st)"
proof -
  obtain caption st2 where c: "get_caption_from_config w (started w st) = (caption, st2)"
    by (cases "get_caption_from_config w (started w st)")
  from get_caption_keeps(3) [of w "started w st"] c have d2: "deletes st2 = deletes st" by simp
  obtain r st4 where p: "post_to_threads w f caption (emit Authenticate st2) = (r, st4)"
    by (cases "post_to_threads w f caption (emit Authenticate st2)")
  from assms(2) c p have r: "r = Returns b" by (simp add: publisher_call_def)
  from post_to_threads_keeps [of w f caption "emit Authenticate st2"] p d2
  have d4: "deletes st4 = deletes st" by simp
  show "fst (run_with_file w f st) = (b, Some (name f))"
    using assms(1) c p r by (simp add: run_with_file_def authenticate_dropbox_def Let_def)
  show "deletes (snd (run_with_file w f st)) = Suc (deletes st)"
    using assms(1) c p r d4 by (simp add: run_with_file_def authenticate_dropbox_def Let_def)
qed

lemma run_with_file_auth_raises:
  assumes "auth_run w = Raises e"
  shows "fst (run_with_file w f st) = (False, None)"
    and "deletes (snd (run_with_file w f st)) = deletes st"
proof -
  obtain caption st2 where c: "get_caption_from_config w (started w st) = (caption, st2)"
    by (cases "get_caption_from_config w (started w st)")
  from get_caption_keeps(3) [of w "started w st"] c have d2: "deletes st2 = deletes st" by simp
  show "fst (run_with_file w f st) = (False, None)"
    using assms c by (simp add: run_with_file_def authenticate_dropbox_def Let_def)
  show "deletes (snd (run_with_file w f st)) = deletes st"
    using assms c d2 by (simp add: run_with_file_def authenticate_dropbox_def Let_def)
qed

lemma run_with_file_publisher_raises:
  assumes "auth_run w = Returns u" "fst (publisher_call w f st) = Raises e"
  shows "fst (run_with_file w f st) = (False, None)"
    and "deletes (snd (run_with_file w f st)) = deletes st"
proof -
  obtain caption st2 where c: "get_caption_from_config w (started w st) = (caption, st2)"
    by (cases "get_caption_from_config w (started w st)")
  from get_caption_keeps(3) [of w "started w st"] c have d2: "deletes st2 = deletes st" by simp
  obtain r st4 where p: "post_to_threads w f caption (emit Authenticate st2) = (r, st4)"
    by (cases "post_to_threads w f caption (emit Authenticate st2)")
  from assms(2) c p have r: "r = Raises e" by (simp add: publisher_call_def)
  from post_to_threads_keeps [of w f caption "emit Authenticate st2"] p d2
  have d4: "deletes st4 = deletes st" by simp
  show "fst (run_with_file w f st) = (False, None)"
    using assms(1) c p r by (simp add: run_with_file_def authenticate_dropbox_def Let_def)
  show "deletes (snd (run_with_file w f st)) = deletes st"
    using assms(1) c p r d4 by (simp add: run_with_file_def authenticate_dropbox_def Let_def)
qed

section \<open>The Publisher does not look at the deletion\<close>

lemma poll_loop_delete_res [simp]:
  "poll_loop (w\<lparr>delete_res := d\<rparr>) f i n st = poll_loop w f i n st"
  by (induction n arbitrary: i st) (simp_all add: Let_def split: outcome.splits)

lemma publish_loop_delete_res [simp]:
  "publish_loop (w\<lparr>delete_res := d\<rparr>) f a n st = publish_loop w f a n st"
  by (induction n arbitrary: a st) (simp_all add: Let_def split: outcome.splits)

lemma publish_step_delete_res [simp]:
  "publish_step (w\<lparr>delete_res := d\<rparr>) f st = publish_step w f st"
  by (simp add: publish_step_def Let_def)

lemma media_post_delete_res [simp]:
  "media_post (w\<lparr>delete_res := d\<rparr>) f cap mt link st = media_post w f cap mt link st"
  by (simp add: media_post_def Let_def split: outcome.splits prod.splits flow.splits)

lemma text_post_delete_res [simp]:
  "text_post (w\<lparr>delete_res := d\<rparr>) f cap st = text_post w f cap st"
  by (simp add: text_post_def Let_def)

lemma post_to_threads_delete_res [simp]:
  "post_to_threads (w\<lparr>delete_res := d\<rparr>) f cap st = post_to_threads w f cap st"
  by (simp add: post_to_threads_def Let_def split: outcome.splits prod.splits option.splits)

lemma publisher_call_delete_res [simp]:
  "publisher_call (w\<lparr>delete_res := d\<rparr>) f st = publisher_call w f st"
  by (simp add: publisher_call_def get_caption_from_config_def started_def)

lemma run_with_file_delete_res:
  "fst (run_with_file (w\<lparr>delete_res := d\<rparr>) f st) = fst (run_with_file w f st)"
proof (cases "auth_run w")
  case (Raises e)
  then have "auth_run (w\<lparr>delete_res := d\<rparr>) = Raises e" by simp
  from run_with_file_auth_raises(1) [OF this] run_with_file_auth_raises(1) [OF Raises]
  show ?thesis by simp
next
  case (Returns u)
  then have a: "auth_run (w\<lparr>delete_res := d\<rparr>) = Returns u" by simp
  show ?thesis
  proof (cases "fst (publisher_call w f st)")
    case r: (Raises e)
    then have "fst (publisher_call (w\<lparr>delete_res := d\<rparr>) f st) = Raises e" by simp
    from run_with_file_publisher_raises(1) [OF a this] run_with_file_publisher_raises(1) [OF Returns r]
    show ?thesis by simp
  next
    case r: (Returns b)
    then have "fst (publisher_call (w\<lparr>delete_res := d\<rparr>) f st) = Returns b" by simp
    from run_with_file_returns(1) [OF a this] run_with_file_returns(1) [OF Returns r]
    show ?thesis by simp
  qed
qed

text \<open>The pieces of the main loop's body: the first listing, and the summary line.\<close>

lemma process_account_fst:
  "fst (process_account acct w) =
     (let st0 = \<lparr>account_name = acct, telegram_bot = bot_configured w,
                 log_buffer = [], trace = []\<rparr>;
          pre = (case authenticate_dropbox (auth_main w) st0 of
               (Raises e, s) \<Rightarrow> (None, [], s)
             | (Returns _, s) \<Rightarrow>
                 (case list_dropbox_files (entries_main w) s of
                    (Raises e, s') \<Rightarrow> (None, [], s')
                  | (Returns fs, s') \<Rightarrow> (Some (length fs), fs, s')));
          initial_count = fst pre; files = fst (snd pre); st1 = snd (snd pre)
      in if files \<noteq> []
         then (let r = fst (run_with_file w (random_choice (choice_main w) files)
                             (emit RandomChoice st1))
               in summary_line acct initial_count (snd r) (fst r))
         else summary_line acct initial_count None False)"
  by (simp add: process_account_def Let_def case_prod_unfold)

lemma process_account_delete_res:
  "fst (process_account acct (w\<lparr>delete_res := d\<rparr>)) = fst (process_account acct w)"
  unfolding process_account_fst Let_def authenticate_dropbox_def
  by (simp add: run_with_file_delete_res split: outcome.splits prod.splits)

lemma delete_file_failure_trace:
  "delete_res w = Raises e \<Longrightarrow>
   \<exists>m. trace (delete_file w f st) = trace st @ [FilesDelete (path_lower f), Logged WARNING m]"
  by (simp add: delete_file_def send_message_def Let_def)

text \<open>
  C6, as the code has it: for every selected file, when the second authentication
  succeeds and the Publisher returns a result \<open>b\<close> (success or failure), the delete call
  is attempted exactly once and the run reports \<open>(b, name)\<close>; when the authentication
  or the Publisher raises, no delete call is attempted and the run reports
  \<open>(False, None)\<close>. A deletion that fails is logged as a warning after the delete call,
  and neither the pair the run reports nor the summary line of the account depends on
  the outcome of the deletion.
\<close>

theorem delete_attempted_once_after_publisher_returns:
  "(auth_run w = Returns () \<and> fst (publisher_call w f st) = Returns b \<longrightarrow>
      fst (run_with_file w f st) = (b, Some (name f)) \<and>
      deletes (snd (run_with_file w f st)) = deletes st + 1) \<and>
   (auth_run w = Raises e \<or> fst (publisher_call w f st) = Raises e \<longrightarrow>
      fst (run_with_file w f st) = (False, None) \<and>
      deletes (snd (run_with_file w f st)) = deletes st) \<and>
   (delete_res w = Raises e \<longrightarrow>
      (\<exists>m. trace (delete_file w f st) = trace st @ [FilesDelete (path_lower f), Logged WARNING m])) \<and>
   fst (run_with_file (w\<lparr>delete_res := d\<rparr>) f st) = fst (run_with_file w f st) \<and>
   fst (process_account acct (w\<lparr>delete_res := d\<rparr>)) = fst (process_account acct w)"
proof (intro conjI impI)
  assume a: "auth_run w = Returns () \<and> fst (publisher_call w f st) = Returns b"
  from run_with_file_returns [of w "()" f st b] a
  show "fst (run_with_file w f st) = (b, Some (name f))"
    and "deletes (snd (run_with_file w f st)) = deletes st + 1" by simp_all
next
  assume a: "auth_run w = Raises e \<or> fst (publisher_call w f st) = Raises e"
  have "fst (run_with_file w f st) = (False, None) \<and>
      deletes (snd (run_with_file w f st)) = deletes st"
  proof (cases "auth_run w")
    case (Raises e')
    from run_with_file_auth_raises [OF this, of f st] show ?thesis by simp
  next
    case (Returns u)
    with a have "fst (publisher_call w f st) = Raises e" by auto
    from run_with_file_publisher_raises [OF Returns this] show ?thesis by simp
  qed
  then show "fst (run_with_file w f st) = (False, None)"
    and "deletes (snd (run_with_file w f st)) = deletes st" by simp_all
next
  assume "delete_res w = Raises e"
  then show "\<exists>m. trace (delete_file w f st) = trace st @ [FilesDelete (path_lower f), Logged WARNING m]"
    by (rule delete_file_failure_trace)
next
  show "fst (run_with_file (w\<lparr>delete_res := d\<rparr>) f st) = fst (run_with_file w f st)"
    by (rule run_with_file_delete_res)
next
  show "fst (process_account acct (w\<lparr>delete_res := d\<rparr>)) = fst (process_account acct w)"
    by (rule process_account_delete_res)
qed

section \<open>Scenarios\<close>

text \<open>
  The first poll says FINISHED and the first publish call answers 200: one settle
  delay, one publish call, success.
\<close>

lemma post_to_threads_first_try:
  assumes "temp_link w = Returns (Some link)" "link \<noteq> []" "entries_post w = Returns es"
    and "container_created w" "classify_poll (poll_res w 0) = Finished"
    and "publish_res w 0 = Returns pub" "status_code pub = 200"
  shows "fst (post_to_threads w f cap st) = Returns True"
    and "polls (snd (post_to_threads w f cap st)) = polls st + 1"
    and "publishes (snd (post_to_threads w f cap st)) = publishes st + 1"
proof -
  let ?st1 = "emit (HttpCreate (media_type_of f) cap (Some link)) (uploading f es st)"
  let ?st2 = "emit (Sleep 3) (emit HttpPoll ?st1)"
  note e = post_to_threads_media [OF assms(1-3), of f cap st]
  have "(0::nat) < 20" "\<forall>k<0::nat. classify_poll (poll_res w k) = Pending" by simp_all
  note m = media_post_settled [OF assms(4) this, of f cap "media_type_of f" link "uploading f es st",
      unfolded assms(5) poll_class.case pending_polls.simps]
  from assms(6,7) have "\<not> retry_at w 0" by (simp add: retry_at_def)
  from publish_step_stop [of 0 w f ?st2] this assms(6,7)
  have p: "fst (publish_step w f ?st2) = Returns True"
    "publishes (snd (publish_step w f ?st2)) = publishes st + 1"
    by (simp_all add: publish_result_def)
  show "fst (post_to_threads w f cap st) = Returns True"
    unfolding e m [THEN conjunct2] by (rule p(1))
  show "publishes (snd (post_to_threads w f cap st)) = publishes st + 1"
    unfolding e m [THEN conjunct2] by (rule p(2))
  show "polls (snd (post_to_threads w f cap st)) = polls st + 1"
    unfolding e using m [THEN conjunct1] by simp
qed

lemma sample_world_facts:
  "temp_link sample_world = Returns (Some (py ''https://dl/a''))"
  "py ''https://dl/a'' \<noteq> []"
  "entries_post sample_world = Returns [sample_file]"
  "container_created sample_world"
  "classify_poll (poll_res sample_world 0) = Finished"
  "publish_res sample_world 0 = Returns (http 200 (Returns (PyDict [(py ''id'', PyStr (py ''18''))])))"
  "status_code (http 200 (Returns (PyDict [(py ''id'', PyStr (py ''18''))]))) = 200"
  "auth_run sample_world = Returns ()"
  "auth_main sample_world = Returns ()"
  by (simp_all add: sample_world_def container_created_def classify_poll_def http_def
      json_get_def dict_get_def py_def)

lemma sample_publisher_call:
  "fst (publisher_call sample_world f st) = Returns True"
  unfolding publisher_call_def
  using post_to_threads_first_try(1) [OF sample_world_facts(1-7)]
  by (simp add: case_prod_unfold)

lemma publisher_call_create_raises:
  assumes "temp_link w = Returns (Some link)" "link \<noteq> []" "entries_post w = Returns es"
    and "create_res w = Raises e"
  shows "fst (publisher_call w f st) = Raises e"
proof -
  have "fst (post_to_threads w f cap st') = Raises e" for cap st'
    unfolding post_to_threads_media [OF assms(1-3)] using assms(4)
    by (simp add: media_post_def Let_def)
  then show ?thesis by (simp add: publisher_call_def case_prod_unfold)
qed

text \<open>
  The claim as written fails: the file is selected, the container-creation call raises
  (the network is down), the run reports a failure, and no delete call is attempted.
\<close>

theorem delete_attempted_once_counterexample:
  "fst (run_with_file (sample_world\<lparr>create_res := Raises (py ''ConnectionError'')\<rparr>)
         sample_file sample_state) = (False, None) \<and>
   deletes (snd (run_with_file (sample_world\<lparr>create_res := Raises (py ''ConnectionError'')\<rparr>)
         sample_file sample_state)) = 0"
proof -
  let ?w = "sample_world\<lparr>create_res := Raises (py ''ConnectionError'')\<rparr>"
  have a: "auth_run ?w = Returns ()" by (simp add: sample_world_facts)
  have "temp_link ?w = Returns (Some (py ''https://dl/a''))"
    "entries_post ?w = Returns [sample_file]" "create_res ?w = Raises (py ''ConnectionError'')"
    by (simp_all add: sample_world_facts)
  from publisher_call_create_raises [OF this(1) sample_world_facts(2) this(2,3)]
  have p: "fst (publisher_call ?w sample_file sample_state) = Raises (py ''ConnectionError'')" .
  have "deletes sample_state = 0" by (simp add: deletes_def sample_state_def)
  with run_with_file_publisher_raises [OF a p] show ?thesis by simp
qed

theorem delete_attempted_once_after_publisher_returns_witness:
  "fst (run_with_file sample_world sample_file sample_state) = (True, Some (name sample_file)) \<and>
   deletes (snd (run_with_file sample_world sample_file sample_state)) = deletes sample_state + 1 \<and>
   fst (run_with_file (sample_world\<lparr>auth_run := Raises (py ''AuthError'')\<rparr>) sample_file sample_state)
     = (False, None) \<and>
   deletes (snd (run_with_file (sample_world\<lparr>auth_run := Raises (py ''AuthError'')\<rparr>) sample_file
     sample_state)) = deletes sample_state \<and>
   (\<exists>m. trace (delete_file (sample_world\<lparr>delete_res := Raises (py ''ApiError'')\<rparr>) sample_file sample_state)
      = trace sample_state @ [FilesDelete (path_lower sample_file), Logged WARNING m])"
proof -
  let ?w2 = "sample_world\<lparr>auth_run := Raises (py ''AuthError'')\<rparr>"
  let ?w3 = "sample_world\<lparr>delete_res := Raises (py ''ApiError'')\<rparr>"
  have h1: "auth_run sample_world = Returns () \<and>
      fst (publisher_call sample_world sample_file sample_state) = Returns True"
    by (simp add: sample_world_facts sample_publisher_call)
  have h2: "auth_run ?w2 = Raises (py ''AuthError'') \<or>
      fst (publisher_call ?w2 sample_file sample_state) = Raises (py ''AuthError'')"
    by simp
  have h3: "delete_res ?w3 = Raises (py ''ApiError'')" by simp
  note T1 = delete_attempted_once_after_publisher_returns
    [where w = sample_world and f = sample_file and st = sample_state and b = True,
     THEN conjunct1, rule_format, OF h1]
  note T2 = delete_attempted_once_after_publisher_returns
    [where w = ?w2 and f = sample_file and st = sample_state and e = "py ''AuthError''",
     THEN conjunct2, THEN conjunct1, rule_format, OF h2]
  note T3 = delete_attempted_once_after_publisher_returns
    [where w = ?w3 and f = sample_file and st = sample_state and e = "py ''ApiError''",
     THEN conjunct2, THEN conjunct2, THEN conjunct1, rule_format, OF h3]
  from T1 T2 T3 show ?thesis by blast
qed

section \<open>The main loop's body\<close>

lemma process_account_snd:
  "snd (process_account acct w) =
     (let st0 = \<lparr>account_name = acct, telegram_bot = bot_configured w,
                 log_buffer = [], trace = []\<rparr>;
          pre = (case authenticate_dropbox (auth_main w) st0 of
               (Raises e, s) \<Rightarrow> (None, [], s)
             | (Returns _, s) \<Rightarrow>
                 (case list_dropbox_files (entries_main w) s of
                    (Raises e, s') \<Rightarrow> (None, [], s')
                  | (Returns fs, s') \<Rightarrow> (Some (length fs), fs, s')));
          files = fst (snd pre); st1 = snd (snd pre)
      in if files \<noteq> []
         then snd (run_with_file w (random_choice (choice_main w) files) (emit RandomChoice st1))
         else run w st1)"
  by (simp add: process_account_def Let_def case_prod_unfold)

text \<open>The run without a chosen file, when its own listing gives no file or fails.\<close>

lemma run_no_files:
  assumes "\<forall>es. auth_run w = Returns () \<and> entries_run w = Returns es \<longrightarrow> filter eligible es = []"
  shows "deletes (run w st) = deletes st \<and> publishes (run w st) = publishes st \<and>
         creates (run w st) = creates st \<and> polls (run w st) = polls st \<and>
         choices (run w st) = choices st"
proof -
  obtain caption st2 where c: "get_caption_from_config w (started w st) = (caption, st2)"
    by (cases "get_caption_from_config w (started w st)")
  from get_caption_keeps [of w "started w st"] c
  have k: "deletes st2 = deletes st" "publishes st2 = publishes st" "creates st2 = creates st"
    "polls st2 = polls st" "choices st2 = choices st" by simp_all
  show ?thesis
  proof (cases "auth_run w")
    case (Raises e)
    with c k show ?thesis by (simp add: run_def authenticate_dropbox_def Let_def)
  next
    case a: (Returns u)
    show ?thesis
    proof (cases "entries_run w")
      case (Raises e)
      with a c k show ?thesis
        by (simp add: run_def authenticate_dropbox_def list_dropbox_files_def Let_def)
    next
      case (Returns es)
      with a assms have "filter eligible es = []" by simp
      with a Returns c k show ?thesis
        by (simp add: run_def authenticate_dropbox_def list_dropbox_files_def Let_def)
    qed
  qed
qed

lemma str_of_nat_0: "str_of_nat 0 = py ''0''"
  by (simp add: str_of_nat.simps py_def)

text \<open>
  When the listing of the main block is empty and the listing \<open>run\<close> makes again is
  empty too (or \<open>run\<close> cannot authenticate or list), no delete call, no publish call
  and no container or text-post creation call occur (nor a poll or a file selection), and
  the summary line of the account is exactly the account's name followed by
  \<open>: 0 files, no file posted.\<close>
\<close>

lemma empty_folder_posts_nothing:
  assumes "auth_main w = Returns ()" "entries_main w = Returns es0" "filter eligible es0 = []"
    and "\<forall>es. auth_run w = Returns () \<and> entries_run w = Returns es \<longrightarrow> filter eligible es = []"
  shows "fst (process_account acct w) = acct @ py '': 0 files, no file posted.'' \<and>
         deletes (snd (process_account acct w)) = 0 \<and>
         publishes (snd (process_account acct w)) = 0 \<and>
         creates (snd (process_account acct w)) = 0 \<and>
         polls (snd (process_account acct w)) = 0 \<and>
         choices (snd (process_account acct w)) = 0"
proof -
  let ?st0 = "\<lparr>account_name = acct, telegram_bot = bot_configured w, log_buffer = [], trace = []\<rparr>"
  let ?st1 = "emit ListFolder (emit Authenticate ?st0)"
  have z: "deletes ?st1 = 0" "publishes ?st1 = 0" "creates ?st1 = 0" "polls ?st1 = 0"
    "choices ?st1 = 0"
    by (simp_all add: emit_def deletes_def publishes_def creates_def polls_def choices_def)
  have line: "fst (process_account acct w) = acct @ py '': 0 files, no file posted.''"
    unfolding process_account_fst using assms(1-3)
    by (simp add: authenticate_dropbox_def list_dropbox_files_def summary_line_def Let_def
        str_of_nat_0 py_def)
  have st: "snd (process_account acct w) = run w ?st1"
    unfolding process_account_snd using assms(1-3)
    by (simp add: authenticate_dropbox_def list_dropbox_files_def Let_def)
  from run_no_files [OF assms(4), of ?st1] z line show ?thesis unfolding st by simp
qed

lemma empty_folder_posts_nothing_example:
  "fst (process_account (py ''inkwisp'')
         (sample_world\<lparr>entries_main := Returns [], entries_run := Returns []\<rparr>))
     = py ''inkwisp'' @ py '': 0 files, no file posted.'' \<and>
   deletes (snd (process_account (py ''inkwisp'')
         (sample_world\<lparr>entries_main := Returns [], entries_run := Returns []\<rparr>))) = 0 \<and>
   publishes (snd (process_account (py ''inkwisp'')
         (sample_world\<lparr>entries_main := Returns [], entries_run := Returns []\<rparr>))) = 0"
proof -
  let ?w = "sample_world\<lparr>entries_main := Returns [], entries_run := Returns []\<rparr>"
  have h: "auth_main ?w = Returns ()" "entries_main ?w = Returns []" "filter eligible [] = []"
    "\<forall>es. auth_run ?w = Returns () \<and> entries_run ?w = Returns es \<longrightarrow> filter eligible es = []"
    by (simp_all add: sample_world_facts)
  from empty_folder_posts_nothing [OF h, of "py ''inkwisp''"] show ?thesis by blast
qed

section \<open>A failed first listing\<close>

text \<open>The run without a chosen file, when its own listing gives files.\<close>

lemma run_posts:
  assumes "auth_run w = Returns ()" "entries_run w = Returns es" "filter eligible es \<noteq> []"
    and "\<And>cap st'. fst (post_to_threads w (random_choice (choice_run w) (filter eligible es)) cap st')
           = Returns b"
    and "\<And>cap st'. publishes (snd (post_to_threads w (random_choice (choice_run w) (filter eligible es))
           cap st')) = publishes st' + p"
  shows "deletes (run w st) = deletes st + 1"
    and "choices (run w st) = choices st + 1"
    and "publishes (run w st) = publishes st + p"
proof -
  let ?f = "random_choice (choice_run w) (filter eligible es)"
  obtain caption st2 where c: "get_caption_from_config w (started w st) = (caption, st2)"
    by (cases "get_caption_from_config w (started w st)")
  from get_caption_keeps [of w "started w st"] c
  have k: "deletes st2 = deletes st" "publishes st2 = publishes st" "choices st2 = choices st"
    by simp_all
  let ?st5 = "emit RandomChoice (emit ListFolder (emit Authenticate st2))"
  obtain r st6 where p: "post_to_threads w ?f caption ?st5 = (r, st6)"
    by (cases "post_to_threads w ?f caption ?st5")
  from assms(4) [of caption ?st5] p have r: "r = Returns b" by simp
  from assms(5) [of caption ?st5] p k have p6: "publishes st6 = publishes st + p" by simp
  from post_to_threads_keeps [of w ?f caption ?st5] p k
  have k6: "deletes st6 = deletes st" "choices st6 = choices st + 1" by simp_all
  have e: "run w st = finish w (delete_file w ?f st6)"
    using assms(1-3) c p r
    by (simp add: run_def authenticate_dropbox_def list_dropbox_files_def Let_def)
  show "deletes (run w st) = deletes st + 1" unfolding e using k6 by simp
  show "choices (run w st) = choices st + 1" unfolding e using k6 by simp
  show "publishes (run w st) = publishes st + p" unfolding e using p6 by simp
qed

lemma initial_failure_summary:
  assumes "auth_main w = Raises e \<or> entries_main w = Raises e"
  shows "fst (process_account acct w) = acct @ py '': Dropbox error, could not count files.''"
    and "\<exists>st1. snd (process_account acct w) = run w st1 \<and> deletes st1 = 0 \<and>
           publishes st1 = 0 \<and> choices st1 = 0"
proof -
  let ?st0 = "\<lparr>account_name = acct, telegram_bot = bot_configured w, log_buffer = [], trace = []\<rparr>"
  show "fst (process_account acct w) = acct @ py '': Dropbox error, could not count files.''"
    unfolding process_account_fst using assms
    by (auto simp: authenticate_dropbox_def list_dropbox_files_def summary_line_def Let_def
        split: outcome.splits)
  have z: "deletes (emit Authenticate ?st0) = 0" "publishes (emit Authenticate ?st0) = 0"
    "choices (emit Authenticate ?st0) = 0"
    "deletes (emit ListFolder (emit Authenticate ?st0)) = 0"
    "publishes (emit ListFolder (emit Authenticate ?st0)) = 0"
    "choices (emit ListFolder (emit Authenticate ?st0)) = 0"
    by (simp_all add: emit_def deletes_def publishes_def choices_def)
  have "snd (process_account acct w) = run w (emit Authenticate ?st0) \<or>
        snd (process_account acct w) = run w (emit ListFolder (emit Authenticate ?st0))"
    unfolding process_account_snd using assms
    by (auto simp: authenticate_dropbox_def list_dropbox_files_def Let_def split: outcome.splits)
  with z show "\<exists>st1. snd (process_account acct w) = run w st1 \<and> deletes st1 = 0 \<and>
           publishes st1 = 0 \<and> choices st1 = 0" by blast
qed

lemma eligible_sample_file: "eligible sample_file"
  by (simp add: eligible_def sample_file_def endswith_any_def endswith_def lower_def lower_cp_def
      valid_exts_def py_def)

text \<open>
  C5: the first authentication of the account fails once (the network is down for a
  moment) and everything after it succeeds. The main block records the count as the
  error and writes the error line into the summary, and then calls \<open>run\<close>, which
  authenticates and lists again: a file is selected, published and deleted. The code
  does not stop at the failed listing, as the claim and the comment at the call of
  \<open>run\<close> (\<open>Will log no files found\<close>) say it should.
\<close>

theorem failed_first_listing_still_posts:
  "fst (process_account (py ''inkwisp'') (sample_world\<lparr>auth_main := Raises (py ''ConnectionError'')\<rparr>))
     = py ''inkwisp'' @ py '': Dropbox error, could not count files.'' \<and>
   choices (snd (process_account (py ''inkwisp'')
     (sample_world\<lparr>auth_main := Raises (py ''ConnectionError'')\<rparr>))) = 1 \<and>
   publishes (snd (process_account (py ''inkwisp'')
     (sample_world\<lparr>auth_main := Raises (py ''ConnectionError'')\<rparr>))) = 1 \<and>
   deletes (snd (process_account (py ''inkwisp'')
     (sample_world\<lparr>auth_main := Raises (py ''ConnectionError'')\<rparr>))) = 1"
proof -
  let ?w = "sample_world\<lparr>auth_main := Raises (py ''ConnectionError'')\<rparr>"
  have a: "auth_main ?w = Raises (py ''ConnectionError'') \<or> entries_main ?w = Raises (py ''ConnectionError'')"
    by simp
  from initial_failure_summary(2) [OF a, of "py ''inkwisp''"]
  obtain st1 where st1: "snd (process_account (py ''inkwisp'') ?w) = run ?w st1"
    "deletes st1 = 0" "publishes st1 = 0" "choices st1 = 0" by blast
  have r: "auth_run ?w = Returns ()" "entries_run ?w = Returns [sample_file]"
    "filter eligible [sample_file] \<noteq> []"
    by (simp_all add: sample_world_facts sample_world_def eligible_sample_file)
  have f: "temp_link ?w = Returns (Some (py ''https://dl/a''))"
    "py ''https://dl/a'' \<noteq> []"
    "entries_post ?w = Returns [sample_file]"
    "container_created ?w"
    "classify_poll (poll_res ?w 0) = Finished"
    "publish_res ?w 0 = Returns (http 200 (Returns (PyDict [(py ''id'', PyStr (py ''18''))])))"
    "status_code (http 200 (Returns (PyDict [(py ''id'', PyStr (py ''18''))]))) = 200"
    using sample_world_facts(1-7) by (simp_all add: container_created_def)
  note p = post_to_threads_first_try [OF f]
  note R = run_posts [OF r, of True 1 st1, OF p(1) p(3)]
  from initial_failure_summary(1) [OF a, of "py ''inkwisp''"] R st1 show ?thesis by simp
qed

section \<open>Splitting a notification\<close>

lemma concat_slices:
  "0 < m \<Longrightarrow> concat (map (\<lambda>i. slice s i (i + m)) (range_step i (length s) m)) = drop i s"
proof (induction i "length s" m rule: range_step.induct)
  case (1 i step)
  show ?case
  proof (cases "length s \<le> i")
    case True
    then show ?thesis by (simp add: range_step.simps)
  next
    case False
    with "1.prems" have rs: "range_step i (length s) step = i # range_step (i + step) (length s) step"
      by (subst range_step.simps) simp
    from False "1.prems" have ih:
      "concat (map (\<lambda>i. slice s i (i + step)) (range_step (i + step) (length s) step))
         = drop (i + step) s"
      by (intro "1.hyps") simp_all
    have "take step (drop i s) @ drop (i + step) s = drop i s"
      by (metis add.commute append_take_drop_id drop_drop)
    with ih show ?thesis unfolding rs by (simp add: slice_def)
  qed
qed

lemma range_step_below: "i' \<in> set (range_step i stop step) \<Longrightarrow> i' < stop"
proof (induction i stop step rule: range_step.induct)
  case (1 i stop step)
  show ?case
  proof (cases "step = 0 \<or> stop \<le> i")
    case True
    with "1.prems" show ?thesis by (simp add: range_step.simps)
  next
    case False
    then have "range_step i stop step = i # range_step (i + step) stop step"
      by (subst range_step.simps) simp
    with "1.prems" "1.IH" False show ?thesis by auto
  qed
qed

lemma chunks_bounded: "c \<in> set (chunks s) \<Longrightarrow> length c \<le> 4000 \<and> c \<noteq> []"
proof -
  assume "c \<in> set (chunks s)"
  then obtain i where i: "i \<in> set (range_step 0 (length s) 4000)" "c = slice s i (i + 4000)"
    by (auto simp: chunks_def)
  from range_step_below [OF i(1)] have "i < length s" .
  with i(2) show ?thesis by (auto simp: slice_def)
qed

lemma concat_chunks: "concat (chunks s) = s"
  using concat_slices [of 4000 s 0] by (simp add: chunks_def)

lemma telegram_texts_append:
  "telegram_texts (xs @ ys) = telegram_texts xs @ telegram_texts ys"
  by (induction xs rule: telegram_texts.induct) simp_all

lemma send_chunks_texts:
  "telegram_texts (trace (send_chunks w s is k st))
     = telegram_texts (trace st) @ map (\<lambda>i. slice s i (i + 4000)) is"
  by (induction "is" arbitrary: k st)
    (auto simp: Let_def telegram_texts_append split: outcome.splits)

lemma send_all_texts:
  "\<forall>k. sends k = Returns () \<Longrightarrow>
   fst (send_all sends s is k tr) = Returns () \<and>
   telegram_texts (snd (send_all sends s is k tr))
     = telegram_texts tr @ map (\<lambda>i. slice s i (i + 4000)) is"
  by (induction "is" arbitrary: k tr) (auto simp: Let_def telegram_texts_append)

lemma trace_log_buffer_update [simp]: "trace (st\<lparr>log_buffer := b\<rparr>) = trace st"
  by simp

text \<open>
  C8: every text is cut into pieces of at most 4000 characters, none empty, whose
  concatenation in order is the text. \<open>send_log_summary\<close>, when a bot is configured and
  the buffer is not empty, hands exactly these pieces of the joined buffer to the bot,
  in order, whatever the sends do; \<open>send_overall_summary\<close> hands exactly these pieces
  of the overall summary to the bot, in order, when the bot can be made and no send
  raises.
\<close>

theorem notification_is_sent_in_chunks:
  "(\<forall>c \<in> set (chunks s). length c \<le> 4000 \<and> c \<noteq> []) \<and>
   concat (chunks s) = s \<and>
   (telegram_bot st \<and> log_buffer st \<noteq> [] \<longrightarrow>
      telegram_texts (trace (send_log_summary w st))
        = telegram_texts (trace st) @ chunks (join nl (log_buffer st))) \<and>
   (new_bot = Returns () \<and> (\<forall>k. sends k = Returns ()) \<longrightarrow>
      telegram_texts (send_overall_summary summary_lines new_bot sends)
        = chunks (overall_text summary_lines))"
proof (intro conjI impI ballI)
  fix c assume "c \<in> set (chunks s)"
  from chunks_bounded [OF this] show "length c \<le> 4000" and "c \<noteq> []" by simp_all
next
  show "concat (chunks s) = s" by (rule concat_chunks)
next
  assume "telegram_bot st \<and> log_buffer st \<noteq> []"
  then show "telegram_texts (trace (send_log_summary w st))
        = telegram_texts (trace st) @ chunks (join nl (log_buffer st))"
    by (simp add: send_log_summary_def Let_def send_chunks_texts chunks_def)
next
  assume a: "new_bot = Returns () \<and> (\<forall>k. sends k = Returns ())"
  let ?s = "overall_text summary_lines"
  obtain r tr where e: "send_all sends ?s (range_step 0 (length ?s) 4000) 0 [Logged INFO ?s] = (r, tr)"
    by (cases "send_all sends ?s (range_step 0 (length ?s) 4000) 0 [Logged INFO ?s]")
  from a send_all_texts [of sends ?s "range_step 0 (length ?s) 4000" 0 "[Logged INFO ?s]"] e
  have "r = Returns ()" "telegram_texts tr = chunks ?s" by (simp_all add: chunks_def)
  with a e show "telegram_texts (send_overall_summary summary_lines new_bot sends) = chunks ?s"
    by (simp add: send_overall_summary_def Let_def)
qed


text \<open>A buffer of two short lines is sent as one message; 4001 characters are two pieces.\<close>

theorem notification_is_sent_in_chunks_witness:
  "telegram_texts (trace (send_log_summary sample_world
      (sample_state\<lparr>log_buffer := [py ''ab'', py ''cd'']\<rparr>))) = [py ''ab'' @ nl @ py ''cd''] \<and>
   chunks (replicate 4001 (97::nat)) = [replicate 4000 97, [97]] \<and>
   concat (chunks (replicate 4001 (97::nat))) = replicate 4001 97"
proof -
  let ?st = "sample_state\<lparr>log_buffer := [py ''ab'', py ''cd'']\<rparr>"
  have h: "telegram_bot ?st \<and> log_buffer ?st \<noteq> []" by (simp add: sample_state_def)
  note T = notification_is_sent_in_chunks
    [where st = ?st and w = sample_world and s = "replicate 4001 (97::nat)"]
  have short: "chunks (join nl (log_buffer ?st)) = [py ''ab'' @ nl @ py ''cd'']"
    by (simp add: chunks_def range_step.simps slice_def py_def nl_def)
  have none: "telegram_texts (trace ?st) = []" by (simp add: sample_state_def)
  have two: "chunks (replicate 4001 (97::nat)) = [replicate 4000 97, [97]]"
    by (simp add: chunks_def range_step.simps slice_def min_def)
  from T [THEN conjunct2, THEN conjunct2, THEN conjunct1, rule_format, OF h]
  have a: "telegram_texts (trace (send_log_summary sample_world ?st)) = [py ''ab'' @ nl @ py ''cd'']"
    unfolding short none by simp
  from a two T [THEN conjunct2, THEN conjunct1] show ?thesis by blast
qed

section \<open>More scenarios\<close>

text \<open>Whatever happens, one call of the Publisher makes at most three publish calls.\<close>

lemma post_to_threads_at_most_three_publishes:
  "publishes (snd (post_to_threads w f cap st)) \<le> publishes st + 3"
proof -
  have step: "publishes (snd (publish_step w f st')) \<le> publishes st' + 3" for st'
    by (cases rule: publish_step_cases [of w f st']) simp_all
  have media: "publishes (snd (media_post w f cap mt link st')) \<le> publishes st' + 3"
    for mt link st'
  proof -
    let ?st1 = "emit (HttpCreate mt cap (Some link)) st'"
    obtain x st2 where eq: "poll_loop w f 0 20 ?st1 = (x, st2)"
      by (cases "poll_loop w f 0 20 ?st1")
    from poll_loop_keeps [of w f 0 20 ?st1] eq have k: "publishes st2 = publishes st'" by simp
    from step [of st2] k have "publishes (snd (publish_step w f st2)) \<le> publishes st' + 3"
      by simp
    with k show ?thesis unfolding media_post_def Let_def eq
      by (auto split: outcome.splits flow.splits)
  qed
  show ?thesis
  proof (cases "temp_link w")
    case (Raises e)
    then show ?thesis by (simp add: post_to_threads_def Let_def)
  next
    case (Returns temp)
    show ?thesis
    proof (cases "entries_post w")
      case (Raises e)
      with Returns show ?thesis by (simp add: post_to_threads_def list_dropbox_files_def Let_def)
    next
      case es: (Returns es)
      show ?thesis
      proof (cases "\<exists>link. temp = Some link \<and> link \<noteq> []")
        case True
        then obtain link where l: "temp = Some link" "link \<noteq> []" by blast
        from Returns l have "temp_link w = Returns (Some link)" by simp
        from post_to_threads_media [OF this l(2) es, of f cap st]
          media [of "media_type_of f" link "uploading f es st"]
        show ?thesis by simp
      next
        case False
        with Returns have "temp_link w = Returns None \<or> temp_link w = Returns (Some [])"
          by (cases temp) auto
        from post_to_threads_text [OF this es, of f cap st]
          text_post_keeps [of w f cap "uploading f es st"]
        show ?thesis by simp
      qed
    qed
  qed
qed

text \<open>
  The publish call fails twice with the retryable subcode and succeeds at the third
  attempt: the result is success, after exactly three publish calls.
\<close>

lemma publish_succeeds_at_third_attempt:
  "fst (publish_step
         (sample_world\<lparr>publish_res := \<lambda>k. if k < 2 then not_ready else publish_res sample_world k\<rparr>)
         sample_file sample_state) = Returns True \<and>
   publishes (snd (publish_step
         (sample_world\<lparr>publish_res := \<lambda>k. if k < 2 then not_ready else publish_res sample_world k\<rparr>)
         sample_file sample_state)) = publishes sample_state + 3"
proof -
  let ?w = "sample_world\<lparr>publish_res := \<lambda>k. if k < 2 then not_ready else publish_res sample_world k\<rparr>"
  have nr: "retry_at ?w k" if "k < 2" for k
    using that
    by (simp add: retry_at_def not_ready_def http_def retryable_def dict_get_def py_def)
  have ok: "\<not> retry_at ?w 2" "publish_result (publish_res ?w 2) = Returns True"
    by (simp_all add: retry_at_def publish_result_def sample_world_def http_def)
  have "(2::nat) < 3" by simp
  from publish_step_stop [OF this _ ok(1), of sample_file sample_state] nr ok(2)
  show ?thesis by simp
qed

text \<open>
  C7: the listing of eligible files of the account is empty when the main block takes
  it, and the folder holds a file when \<open>run\<close>, called on that branch, lists it again
  (a file was uploaded in between). The main block writes the line of an empty folder,
  the account's name followed by \<open>: 0 files, no file posted.\<close>, and under that line
  a file is selected, published and deleted. The code branches on the first listing
  alone and does not keep to it, against the claim and against the comment at the call
  of \<open>run\<close> (\<open>Will log no files found\<close>); it is the defect shown by
  \<open>failed_first_listing_still_posts\<close>. When the second
  listing is empty as well, nothing is posted (\<open>empty_folder_posts_nothing\<close>).
\<close>

theorem folder_filled_between_the_listings:
  "fst (process_account (py ''inkwisp'') (sample_world\<lparr>entries_main := Returns []\<rparr>))
     = py ''inkwisp'' @ py '': 0 files, no file posted.'' \<and>
   choices (snd (process_account (py ''inkwisp'') (sample_world\<lparr>entries_main := Returns []\<rparr>))) = 1 \<and>
   publishes (snd (process_account (py ''inkwisp'') (sample_world\<lparr>entries_main := Returns []\<rparr>))) = 1 \<and>
   deletes (snd (process_account (py ''inkwisp'') (sample_world\<lparr>entries_main := Returns []\<rparr>))) = 1"
proof -
  let ?w = "sample_world\<lparr>entries_main := Returns []\<rparr>"
  let ?st0 = "\<lparr>account_name = py ''inkwisp'', telegram_bot = bot_configured ?w,
               log_buffer = [], trace = []\<rparr>"
  let ?st1 = "emit ListFolder (emit Authenticate ?st0)"
  have z: "deletes ?st1 = 0" "publishes ?st1 = 0" "choices ?st1 = 0"
    by (simp_all add: emit_def deletes_def publishes_def choices_def)
  have line: "fst (process_account (py ''inkwisp'') ?w)
      = py ''inkwisp'' @ py '': 0 files, no file posted.''"
    unfolding process_account_fst
    by (simp add: sample_world_facts authenticate_dropbox_def list_dropbox_files_def
        summary_line_def Let_def str_of_nat_0 py_def)
  have st: "snd (process_account (py ''inkwisp'') ?w) = run ?w ?st1"
    unfolding process_account_snd
    by (simp add: sample_world_facts authenticate_dropbox_def list_dropbox_files_def Let_def)
  have r: "auth_run ?w = Returns ()" "entries_run ?w = Returns [sample_file]"
    "filter eligible [sample_file] \<noteq> []"
    by (simp_all add: sample_world_facts sample_world_def eligible_sample_file)
  have f: "temp_link ?w = Returns (Some (py ''https://dl/a''))"
    "py ''https://dl/a'' \<noteq> []"
    "entries_post ?w = Returns [sample_file]"
    "container_created ?w"
    "classify_poll (poll_res ?w 0) = Finished"
    "publish_res ?w 0 = Returns (http 200 (Returns (PyDict [(py ''id'', PyStr (py ''18''))])))"
    "status_code (http 200 (Returns (PyDict [(py ''id'', PyStr (py ''18''))]))) = 200"
    using sample_world_facts(1-7) by (simp_all add: container_created_def)
  note p = post_to_threads_first_try [OF f]
  note R = run_posts [OF r, of True 1 ?st1, OF p(1) p(3)]
  from line R z show ?thesis unfolding st by simp
qed

end
